theory Spec2Isabelle
  imports Complex_Main "HOL-Library.Log_Nat"
begin

section \<open>Data model\<close>

text \<open>
  The program (\<^verbatim>\<open>Home.py\<close>) handles the decoded JSON bodies of the remote API. A decoded
  body is a Python value built from \<^verbatim>\<open>None\<close>, booleans, integers, strings, lists and
  dicts. A dict is kept as an association list and read with \<open>map_of\<close>. JSON numbers with a
  fractional part (Python floats) are left out of the model; the one float the program
  computes itself, the quotient \<^verbatim>\<open>count/10\<close>, is modelled where it is computed.
\<close>

datatype json =
    JNull
  | JBool bool
  | JInt int
  | JStr string
  | JList "json list"
  | JDict "(string \<times> json) list"

text \<open>
  The exceptions the modelled code can raise. \<open>Exception_wrap e\<close> is the generic
  \<^verbatim>\<open>Exception(f"Error while fetching orders: {e}")\<close> of \<^verbatim>\<open>fetch_orders_page\<close>, which
  wraps the exception \<open>e\<close>. \<open>ConnectionError\<close> is \<^verbatim>\<open>requests.exceptions.ConnectionError\<close>;
  \<open>RequestException\<close> stands for any other exception that \<^verbatim>\<open>session.get\<close> raises.
\<close>

datatype error =
    ConnectionError
  | RequestException
  | JSONDecodeError
  | AttributeError
  | TypeError
  | IndexError
  | KeyError
  | OverflowError
  | Exception_wrap error

type_synonym row = "json list"

text \<open>Sequencing of computations that may raise: the first exception ends the computation.\<close>

definition and_then :: "error + 'a \<Rightarrow> ('a \<Rightarrow> error + 'b) \<Rightarrow> error + 'b" where
  "and_then m f = (case m of Inl e \<Rightarrow> Inl e | Inr x \<Rightarrow> f x)"

subsection \<open>Python operations on decoded JSON\<close>

text \<open>Truth value of a Python object, as tested by \<^verbatim>\<open>if x\<close> and \<^verbatim>\<open>not x\<close>.\<close>

fun truthy :: "json \<Rightarrow> bool" where
  "truthy JNull = False"
| "truthy (JBool b) = b"
| "truthy (JInt n) = (n \<noteq> 0)"
| "truthy (JStr s) = (s \<noteq> [])"
| "truthy (JList xs) = (xs \<noteq> [])"
| "truthy (JDict kvs) = (kvs \<noteq> [])"

text \<open>
  \<^verbatim>\<open>x.get(key, default)\<close>: only a dict has the method, every other value raises
  \<^verbatim>\<open>AttributeError\<close>. \<^verbatim>\<open>x.get(key)\<close> is \<open>py_get x key JNull\<close>.
\<close>

fun py_get :: "json \<Rightarrow> string \<Rightarrow> json \<Rightarrow> error + json" where
  "py_get (JDict kvs) k d = Inr (case map_of kvs k of None \<Rightarrow> d | Some v \<Rightarrow> v)"
| "py_get _ k d = Inl AttributeError"

text \<open>
  Iteration (\<^verbatim>\<open>for x in v\<close>, \<^verbatim>\<open>filter(f, v)\<close>): a list yields its elements, a dict its
  keys, a string its characters; anything else is not iterable.
\<close>

fun py_iter :: "json \<Rightarrow> error + json list" where
  "py_iter (JList xs) = Inr xs"
| "py_iter (JDict kvs) = Inr (map JStr (remdups (map fst kvs)))"
| "py_iter (JStr s) = Inr (map (\<lambda>c. JStr [c]) s)"
| "py_iter _ = Inl TypeError"

text \<open>\<^verbatim>\<open>len(v)\<close>.\<close>

fun py_len :: "json \<Rightarrow> error + nat" where
  "py_len (JList xs) = Inr (length xs)"
| "py_len (JDict kvs) = Inr (length (remdups (map fst kvs)))"
| "py_len (JStr s) = Inr (length s)"
| "py_len _ = Inl TypeError"

text \<open>\<^verbatim>\<open>list(filter(f, xs))\<close> for a predicate that may raise.\<close>

fun py_filter :: "(json \<Rightarrow> error + bool) \<Rightarrow> json list \<Rightarrow> error + json list" where
  "py_filter f [] = Inr []"
| "py_filter f (x # xs) =
     and_then (f x) (\<lambda>b.
     and_then (py_filter f xs) (\<lambda>ys. Inr (if b then x # ys else ys)))"

section \<open>The extractor: \<^verbatim>\<open>process_orders_batch\<close>\<close>

text \<open>The filter predicate \<^verbatim>\<open>lambda i: i.get('order_status', '') == 'Delivered'\<close>.\<close>

definition delivered :: "json \<Rightarrow> error + bool" where
  "delivered i =
     and_then (py_get i ''order_status'' (JStr '''')) (\<lambda>v. Inr (v = JStr ''Delivered''))"

text \<open>The inner loop \<^verbatim>\<open>for item in order.get('order_items')\<close>.\<close>

fun items_loop :: "json \<Rightarrow> json list \<Rightarrow> row list \<Rightarrow> error + row list" where
  "items_loop order_id [] all_items = Inr all_items"
| "items_loop order_id (item # rest) all_items =
     and_then (py_get item ''is_veg'' JNull) (\<lambda>is_veg.
     and_then (py_get item ''name'' JNull) (\<lambda>name.
     items_loop order_id rest (all_items @ [[order_id, name, is_veg]])))"

text \<open>The outer loop \<^verbatim>\<open>for order in delivered_orders\<close>.\<close>

fun orders_loop :: "json list \<Rightarrow> row list \<Rightarrow> row list \<Rightarrow> error + row list \<times> row list" where
  "orders_loop [] all_orders all_items = Inr (all_orders, all_items)"
| "orders_loop (order # rest) all_orders all_items =
     and_then (py_get order ''order_id'' JNull) (\<lambda>order_id.
     and_then (py_get order ''order_total'' JNull) (\<lambda>order_total.
     and_then (py_get order ''restaurant_name'' JNull) (\<lambda>restaurant_name.
     and_then (py_get order ''order_time'' JNull) (\<lambda>order_time.
     and_then (py_get order ''rain_mode'' (JBool False)) (\<lambda>rain_mode.
     and_then (py_get order ''on_time'' (JBool True)) (\<lambda>on_time.
     let all_orders' = all_orders @
           [[order_id, order_total, restaurant_name, order_time, rain_mode, on_time]]
     in and_then (py_get order ''order_items'' JNull) (\<lambda>order_items.
        if truthy order_items then
          and_then (py_iter order_items) (\<lambda>items.
          and_then (items_loop order_id items all_items) (\<lambda>all_items'.
          orders_loop rest all_orders' all_items'))
        else orders_loop rest all_orders' all_items)))))))"

text \<open>
  \<^verbatim>\<open>process_orders_batch(orders, all_orders, all_items)\<close> appends to the two lists it is
  given; the model returns the extended lists. An exception leaves the function (and its
  caller, which does not catch it), so the lists are lost with it.
\<close>

definition process_orders_batch ::
  "json \<Rightarrow> row list \<Rightarrow> row list \<Rightarrow> error + row list \<times> row list" where
  "process_orders_batch orders all_orders all_items =
     and_then (py_iter orders) (\<lambda>xs.
     and_then (py_filter delivered xs) (\<lambda>delivered_orders.
     orders_loop delivered_orders all_orders all_items))"

subsection \<open>The extractor as the specification words it\<close>

text \<open>
  The specification describes the extractor as a function from a page to two sequences:
  keep the orders whose status is "Delivered", make one order row of each (with
  \<open>rain_mode\<close> false and \<open>on_time\<close> true when the field is absent) and one item row of each
  of its items, in input order. The definitions below follow these words; the theorems
  compare them with \<open>process_orders_batch\<close>.
\<close>

definition is_dict :: "json \<Rightarrow> bool" where
  "is_dict v = (case v of JDict kvs \<Rightarrow> True | _ \<Rightarrow> False)"

text \<open>The field \<open>k\<close> of an object, or \<open>d\<close> when the object has no such field.\<close>

definition field :: "json \<Rightarrow> string \<Rightarrow> json \<Rightarrow> json" where
  "field v k d =
     (case v of JDict kvs \<Rightarrow> (case map_of kvs k of None \<Rightarrow> d | Some x \<Rightarrow> x) | _ \<Rightarrow> d)"

definition has_field :: "json \<Rightarrow> string \<Rightarrow> bool" where
  "has_field v k = (case v of JDict kvs \<Rightarrow> map_of kvs k \<noteq> None | _ \<Rightarrow> False)"

definition is_delivered :: "json \<Rightarrow> bool" where
  "is_delivered v = (is_dict v \<and> field v ''order_status'' (JStr '''') = JStr ''Delivered'')"

definition items_of :: "json \<Rightarrow> json list" where
  "items_of v = (case field v ''order_items'' JNull of JList xs \<Rightarrow> xs | _ \<Rightarrow> [])"

text \<open>
  A raw order is an object whose \<open>order_items\<close> field, when it holds anything, holds a list
  of objects.
\<close>

definition raw_order :: "json \<Rightarrow> bool" where
  "raw_order v =
     (is_dict v \<and>
      (case field v ''order_items'' JNull of
         JList xs \<Rightarrow> list_all is_dict xs
       | w \<Rightarrow> \<not> truthy w))"

definition order_row :: "json \<Rightarrow> row" where
  "order_row v =
     [field v ''order_id'' JNull, field v ''order_total'' JNull,
      field v ''restaurant_name'' JNull, field v ''order_time'' JNull,
      field v ''rain_mode'' (JBool False), field v ''on_time'' (JBool True)]"

definition item_rows :: "json \<Rightarrow> row list" where
  "item_rows v =
     map (\<lambda>item. [field v ''order_id'' JNull, field item ''name'' JNull,
                   field item ''is_veg'' JNull]) (items_of v)"

definition extract_rows :: "json list \<Rightarrow> row list \<times> row list" where
  "extract_rows page =
     (map order_row (filter is_delivered page),
      concat (map item_rows (filter is_delivered page)))"

section \<open>The remote service and the trace of a run\<close>

text \<open>
  What the program shows and does besides returning: the messages it displays, the GET
  requests for the orders URL (with the \<^verbatim>\<open>order_id\<close> cursor, \<open>None\<close> for the first page)
  and its calls of \<^verbatim>\<open>time.sleep\<close> (in seconds). \<open>Progress i n\<close> is
  \<^verbatim>\<open>progress_bar.progress(i / n)\<close>.
\<close>

datatype message =
    Unable_to_fetch_orders
  | No_order_placed
  | Found_orders json
  | Fetching_page int int
  | Error_fetching_page int error
  | No_more_orders
  | Response_text "json option"
  | All_orders_fetched

datatype event =
    Get "json option"
  | Sleep rat
  | St_error message
  | St_info message
  | St_warning message
  | St_text message
  | Status_text message
  | Progress int int

type_synonym trace = "event list"

text \<open>
  \<^verbatim>\<open>session.get(url)\<close> either raises or returns a response, whose body decodes to JSON
  (\<open>Some\<close>) or does not (\<open>None\<close>: \<^verbatim>\<open>response.json()\<close> raises). The remote service is any
  function that answers the \<open>n\<close>-th request of the run, given its cursor.
\<close>

datatype outcome = Raises error | Response "json option"

type_synonym server = "nat \<Rightarrow> json option \<Rightarrow> outcome"

fun requests :: "trace \<Rightarrow> json option list" where
  "requests [] = []"
| "requests (Get c # es) = c # requests es"
| "requests (e # es) = requests es"

definition session_get :: "server \<Rightarrow> json option \<Rightarrow> trace \<Rightarrow> outcome \<times> trace" where
  "session_get srv cursor tr = (srv (length (requests tr)) cursor, tr @ [Get cursor])"

text \<open>\<^verbatim>\<open>response.json().get('data').get('orders', [])\<close>.\<close>

definition orders_of_response :: "json option \<Rightarrow> error + json" where
  "orders_of_response body =
     (case body of
        None \<Rightarrow> Inl JSONDecodeError
      | Some j \<Rightarrow> and_then (py_get j ''data'' JNull) (\<lambda>data. py_get data ''orders'' (JList [])))"

section \<open>Fetching one page: \<^verbatim>\<open>fetch_orders_page\<close>\<close>

text \<open>
  The \<^verbatim>\<open>try\<close> block has two handlers. \<^verbatim>\<open>ConnectionError\<close> is handled by sleeping two
  seconds and repeating the request; whatever the repeated request raises leaves the
  function as it is, since a handler is not covered by its sibling handler. Any other
  exception of the \<^verbatim>\<open>try\<close> block is raised again inside a generic \<^verbatim>\<open>Exception\<close>.
\<close>

definition fetch_orders_page :: "server \<Rightarrow> json \<Rightarrow> trace \<Rightarrow> (error + json) \<times> trace" where
  "fetch_orders_page srv offset_id tr =
     (case session_get srv (Some offset_id) tr of
        (Raises e, tr1) \<Rightarrow>
          if e = ConnectionError then
            (case session_get srv (Some offset_id) (tr1 @ [Sleep 2]) of
               (Raises e2, tr2) \<Rightarrow> (Inl e2, tr2)
             | (Response body, tr2) \<Rightarrow> (orders_of_response body, tr2))
          else (Inl (Exception_wrap e), tr1)
      | (Response body, tr1) \<Rightarrow>
          (case orders_of_response body of
             Inl e \<Rightarrow> (Inl (Exception_wrap e), tr1)
           | Inr fin \<Rightarrow>
               (Inr fin,
                if fin = JList []
                then tr1 @ [St_warning No_more_orders, St_text (Response_text body)]
                else tr1)))"

section \<open>Pagination: \<^verbatim>\<open>fetch_swiggy_orders\<close>\<close>

text \<open>\<^verbatim>\<open>orders[-1]\<close> and \<^verbatim>\<open>x['order_id']\<close>.\<close>

fun py_last :: "json \<Rightarrow> error + json" where
  "py_last (JList xs) = (if xs = [] then Inl IndexError else Inr (last xs))"
| "py_last (JStr s) = (if s = [] then Inl IndexError else Inr (JStr [last s]))"
| "py_last (JDict kvs) = Inl KeyError"
| "py_last _ = Inl TypeError"

fun py_getitem :: "json \<Rightarrow> string \<Rightarrow> error + json" where
  "py_getitem (JDict kvs) k = (case map_of kvs k of None \<Rightarrow> Inl KeyError | Some v \<Rightarrow> Inr v)"
| "py_getitem _ k = Inl TypeError"

definition last_order_id :: "json \<Rightarrow> error + json" where
  "last_order_id orders = and_then (py_last orders) (\<lambda>x. py_getitem x ''order_id'')"

text \<open>
  \<^verbatim>\<open>count/10\<close> for an integer \<open>count\<close> is Python's true division: the double nearest to the
  quotient, ties going to the even significand, and \<^verbatim>\<open>OverflowError\<close> when that double
  would not be finite. \<open>round_half_even n d\<close> is the integer nearest to \<open>n / d\<close> (for
  \<open>d > 0\<close>); \<open>binade10 a\<close> is the \<open>k\<close> with \<open>2\<^sup>k \<le> a / 10 < 2\<^sup>k\<^sup>+\<^sup>1\<close> (for \<open>a > 0\<close>), found
  from the bit lengths of \<open>a\<close> and of 10. \<open>div10_double n\<close> is the double as a pair
  \<open>(m, e)\<close> standing for \<open>m * 2\<^sup>e\<close>, with a significand of 53 bits; the quotient of a
  non-zero integer by 10 is at least \<open>1/10\<close> in magnitude, so it is never subnormal.
  \<open>py_ceil\<close> is \<^verbatim>\<open>math.ceil\<close> of such a double.
\<close>

definition round_half_even :: "int \<Rightarrow> int \<Rightarrow> int" where
  "round_half_even n d =
     (let q = n div d; r = n mod d
      in if 2 * r < d then q else if d < 2 * r then q + 1 else if even q then q else q + 1)"

definition binade10 :: "int \<Rightarrow> int" where
  "binade10 a =
     (let d = bitlen a - 4
      in if (if 0 \<le> d then 10 * 2 ^ nat d \<le> a else 10 \<le> a * 2 ^ nat (- d)) then d else d - 1)"

definition div10_double :: "int \<Rightarrow> error + int \<times> int" where
  "div10_double n =
     (if n = 0 then Inr (0, 0)
      else
        let a = \<bar>n\<bar>; e = binade10 a - 52;
            m = (if e \<le> 0 then round_half_even (a * 2 ^ nat (- e)) 10
                 else round_half_even a (10 * 2 ^ nat e))
        in if 0 < e \<and> 2 ^ 1024 \<le> m * 2 ^ nat e then Inl OverflowError
           else Inr (sgn n * m, e))"

definition py_ceil :: "int \<times> int \<Rightarrow> int" where
  "py_ceil v = (case v of (m, e) \<Rightarrow>
     if 0 \<le> e then m * 2 ^ nat e else - ((- m) div 2 ^ nat (- e)))"

definition ceil_div10 :: "int \<Rightarrow> error + int" where
  "ceil_div10 n = and_then (div10_double n) (\<lambda>v. Inr (py_ceil v))"

text \<open>
  \<^verbatim>\<open>ceil(count/10)\<close>. A boolean is the integer 0 or 1; any other value that is not a
  number raises \<^verbatim>\<open>TypeError\<close>.
\<close>

fun pages_of :: "json \<Rightarrow> error + int" where
  "pages_of (JInt n) = ceil_div10 n"
| "pages_of (JBool b) = ceil_div10 (if b then 1 else 0)"
| "pages_of _ = Inl TypeError"

text \<open>A \<^verbatim>\<open>pandas.DataFrame\<close>: its column names and its rows.\<close>

record table =
  columns :: "string list"
  rows :: "row list"

definition DataFrame :: "row list \<Rightarrow> string list \<Rightarrow> table" where
  "DataFrame data cols = \<lparr>columns = cols, rows = data\<rparr>"

definition orders_df :: "row list \<Rightarrow> table" where
  "orders_df all_orders =
     DataFrame all_orders [''order_id'', ''order_total'', ''restaurant_name'', ''order_time'',
       ''rain_mode'', ''on_time'']"

definition items_df :: "row list \<Rightarrow> table" where
  "items_df all_items = DataFrame all_items [''order_id'', ''name'', ''is_veg'']"

text \<open>
  The loop \<^verbatim>\<open>for i in range(1, pages)\<close>, over the list of the indices still to come.
  An exception of \<^verbatim>\<open>fetch_orders_page\<close> is caught and ends the loop; the calls of
  \<^verbatim>\<open>len\<close>, \<^verbatim>\<open>process_orders_batch\<close> and the cursor update are outside the \<^verbatim>\<open>try\<close>.
\<close>

fun pages_loop ::
  "server \<Rightarrow> int \<Rightarrow> int list \<Rightarrow> json \<Rightarrow> row list \<Rightarrow> row list \<Rightarrow> trace
     \<Rightarrow> (error + row list \<times> row list) \<times> trace" where
  "pages_loop srv pages [] offset_id all_orders all_items tr = (Inr (all_orders, all_items), tr)"
| "pages_loop srv pages (i # rest) offset_id all_orders all_items tr =
     (case fetch_orders_page srv offset_id
             (tr @ [Progress i pages, Status_text (Fetching_page (i + 1) pages)]) of
        (Inl e, tr1) \<Rightarrow>
          (Inr (all_orders, all_items), tr1 @ [St_error (Error_fetching_page (i + 1) e)])
      | (Inr orders, tr1) \<Rightarrow>
          (case py_len orders of
             Inl e \<Rightarrow> (Inl e, tr1)
           | Inr n \<Rightarrow>
               if n = 0 then (Inr (all_orders, all_items), tr1 @ [Status_text No_more_orders])
               else
                 (case process_orders_batch orders all_orders all_items of
                    Inl e \<Rightarrow> (Inl e, tr1)
                  | Inr (all_orders', all_items') \<Rightarrow>
                      (case last_order_id orders of
                         Inl e \<Rightarrow> (Inl e, tr1)
                       | Inr offset_id' \<Rightarrow>
                           pages_loop srv pages rest offset_id' all_orders' all_items'
                             (tr1 @ [Sleep (3 / 2)])))))"

text \<open>Lines 159 to 171: the closing messages and the two tables.\<close>

definition make_tables ::
  "(error + row list \<times> row list) \<times> trace \<Rightarrow> (error + (table \<times> table) option) \<times> trace" where
  "make_tables r =
     (case r of
        (Inl e, tr) \<Rightarrow> (Inl e, tr)
      | (Inr (all_orders, all_items), tr) \<Rightarrow>
          (Inr (Some (orders_df all_orders, items_df all_items)),
           tr @ [Progress 1 1, Status_text All_orders_fetched]))"

text \<open>
  \<^verbatim>\<open>fetch_swiggy_orders\<close> from its step 5 on (the session is logged in). The result is
  \<open>None\<close> for \<^verbatim>\<open>(None, None)\<close> and the pair of tables otherwise; an exception that the
  function does not catch is its result \<open>Inl\<close>.
\<close>

definition fetch_swiggy_orders ::
  "server \<Rightarrow> trace \<Rightarrow> (error + (table \<times> table) option) \<times> trace" where
  "fetch_swiggy_orders srv tr =
     (case session_get srv None tr of
        (Raises e, tr1) \<Rightarrow> (Inl e, tr1)
      | (Response None, tr1) \<Rightarrow> (Inl JSONDecodeError, tr1)
      | (Response (Some j), tr1) \<Rightarrow>
          (case py_get j ''data'' JNull of
             Inl e \<Rightarrow> (Inl e, tr1)
           | Inr data \<Rightarrow>
               if \<not> truthy data then (Inr None, tr1 @ [St_error Unable_to_fetch_orders])
               else
                 (case py_get data ''orders'' (JList []) of
                    Inl e \<Rightarrow> (Inl e, tr1)
                  | Inr orders \<Rightarrow>
                      if orders = JList [] then
                        (Inr (Some (DataFrame [] [], DataFrame [] [])),
                         tr1 @ [St_info No_order_placed])
                      else
                        (case process_orders_batch orders [] [] of
                           Inl e \<Rightarrow> (Inl e, tr1)
                         | Inr (all_orders, all_items) \<Rightarrow>
                             (case and_then (py_get data ''total_orders'' (JInt 0)) pages_of of
                                Inl e \<Rightarrow> (Inl e, tr1)
                              | Inr pages \<Rightarrow>
                                  (case last_order_id orders of
                                     Inl e \<Rightarrow>
                                       (Inl e,
                                        tr1 @ [Status_text
                                          (Found_orders (field data ''total_orders'' (JInt 0)))])
                                   | Inr offset_id \<Rightarrow>
                                       make_tables
                                         (pages_loop srv pages [1..pages - 1] offset_id
                                            all_orders all_items
                                            (tr1 @ [Status_text
                                              (Found_orders
                                                (field data ''total_orders'' (JInt 0)))]))))))))"

text \<open>The page fetches of a run: each is announced by the message "Fetching page".\<close>

fun page_fetches :: "trace \<Rightarrow> nat" where
  "page_fetches [] = 0"
| "page_fetches (Status_text (Fetching_page i n) # es) = Suc (page_fetches es)"
| "page_fetches (e # es) = page_fetches es"

subsection \<open>Predicates used to state the pagination claims\<close>

text \<open>An exception raised inside the generic wrapper of \<^verbatim>\<open>fetch_orders_page\<close>.\<close>

definition is_wrapped :: "error + 'a \<Rightarrow> bool" where
  "is_wrapped r = (case r of Inl (Exception_wrap e) \<Rightarrow> True | _ \<Rightarrow> False)"

text \<open>
  The cursor discipline between request \<open>n\<close> (with cursor \<open>c\<close>) and the next request
  (with cursor \<open>c'\<close>): either request \<open>n\<close> failed with a connection error and the next one
  repeats it with the same cursor, or request \<open>n\<close> returned a list of orders and \<open>c'\<close> is
  the \<open>order_id\<close> of its last element. \<open>cursor_chain srv n cs\<close> says so for every two
  neighbours of \<open>cs\<close>, the cursors of the requests from the \<open>n\<close>-th on.
\<close>

definition cursor_step :: "server \<Rightarrow> nat \<Rightarrow> json option \<Rightarrow> json option \<Rightarrow> bool" where
  "cursor_step srv n c c' =
     (case srv n c of
        Raises e \<Rightarrow> e = ConnectionError \<and> c' = c
      | Response body \<Rightarrow>
          (case and_then (orders_of_response body) last_order_id of
             Inl e \<Rightarrow> False
           | Inr x \<Rightarrow> c' = Some x))"

fun cursor_chain :: "server \<Rightarrow> nat \<Rightarrow> json option list \<Rightarrow> bool" where
  "cursor_chain srv n (c # c' # cs) =
     (cursor_step srv n c c' \<and> cursor_chain srv (Suc n) (c' # cs))"
| "cursor_chain srv n cs = True"

section \<open>Sample data\<close>

text \<open>
  A page of three orders: a delivered one with two items and neither \<open>rain_mode\<close> nor
  \<open>on_time\<close>, a cancelled one with one item, and a delivered one without items.
\<close>

definition order_101 :: json where
  "order_101 = JDict [(''order_id'', JInt 101), (''order_status'', JStr ''Delivered''),
     (''order_total'', JInt 250),
     (''order_items'', JList [JDict [(''name'', JStr ''Dosa''), (''is_veg'', JStr ''1'')],
                              JDict [(''name'', JStr ''Idli''), (''is_veg'', JStr ''1'')]])]"

definition order_102 :: json where
  "order_102 = JDict [(''order_id'', JInt 102), (''order_status'', JStr ''Cancelled''),
     (''order_items'', JList [JDict [(''name'', JStr ''Biryani''), (''is_veg'', JStr ''0'')]])]"

definition order_103 :: json where
  "order_103 = JDict [(''order_id'', JInt 103), (''order_status'', JStr ''Delivered''),
     (''rain_mode'', JBool True), (''on_time'', JBool False)]"

definition sample_page :: "json list" where
  "sample_page = [order_101, order_102, order_103]"

definition sample_order_rows :: "row list" where
  "sample_order_rows =
     [[JInt 101, JInt 250, JNull, JNull, JBool False, JBool True],
      [JInt 103, JNull, JNull, JNull, JBool True, JBool False]]"

definition sample_item_rows :: "row list" where
  "sample_item_rows =
     [[JInt 101, JStr ''Dosa'', JStr ''1''], [JInt 101, JStr ''Idli'', JStr ''1'']]"

text \<open>
  The body of an orders response, two more orders, and servers: one that answers the
  first page, fails once with a connection error on the second, answers it on the retry
  and times out on the third; one whose history is empty; one that is unreachable, one
  unreachable once, one that times out, one that sends no JSON; and two whose first page
  is malformed (a blank string for the orders, an order without \<open>order_id\<close>).
\<close>

definition response_body :: "json \<Rightarrow> int \<Rightarrow> json option" where
  "response_body orders count =
     Some (JDict [(''data'', JDict [(''orders'', orders), (''total_orders'', JInt count)])])"

definition order_104 :: json where
  "order_104 = JDict [(''order_id'', JInt 104), (''order_status'', JStr ''Delivered''),
     (''order_items'', JList [JDict [(''name'', JStr ''Vada''), (''is_veg'', JStr ''1'')]])]"

definition always_down :: server where
  "always_down n c = Raises ConnectionError"

definition down_once :: server where
  "down_once n c = (if n = 0 then Raises ConnectionError
                    else Response (response_body (JList [order_104]) 23))"

definition timed_out :: server where
  "timed_out n c = Raises RequestException"

definition garbled :: server where
  "garbled n c = Response None"

definition sample_server :: server where
  "sample_server n c =
     (if n = 0 then Response (response_body (JList sample_page) 23)
      else if n = 1 then Raises ConnectionError
      else if n = 2 then Response (response_body (JList [order_104]) 23)
      else Raises RequestException)"

definition sample_trace :: trace where
  "sample_trace =
     [Get None, Status_text (Found_orders (JInt 23)),
      Progress 1 3, Status_text (Fetching_page 2 3),
      Get (Some (JInt 103)), Sleep 2, Get (Some (JInt 103)), Sleep (3 / 2),
      Progress 2 3, Status_text (Fetching_page 3 3),
      Get (Some (JInt 104)),
      St_error (Error_fetching_page 3 (Exception_wrap RequestException)),
      Progress 1 1, Status_text All_orders_fetched]"

definition row_104 :: row where
  "row_104 = [JInt 104, JNull, JNull, JNull, JBool False, JBool True]"

definition item_104 :: row where
  "item_104 = [JInt 104, JStr ''Vada'', JStr ''1'']"

definition empty_history :: server where
  "empty_history n c = Response (response_body (JList []) 0)"

definition blank_orders :: server where
  "blank_orders n c = Response (response_body (JStr []) 0)"

definition order_without_id :: server where
  "order_without_id n c =
     Response (response_body (JList [JDict [(''order_status'', JStr ''Cancelled'')]]) 1)"

section \<open>Properties of the extractor\<close>

lemma and_then_Inr [simp]: "and_then (Inr x) f = f x"
  by (simp add: and_then_def)

lemma and_then_Inl [simp]: "and_then (Inl e) f = Inl e"
  by (simp add: and_then_def)

lemma and_then_eq_Inr: "and_then m f = Inr r \<longleftrightarrow> (\<exists>x. m = Inr x \<and> f x = Inr r)"
  by (cases m) simp_all

lemma py_get_dict: "is_dict v \<Longrightarrow> py_get v k d = Inr (field v k d)"
  by (cases v) (simp_all add: is_dict_def field_def)

lemma py_get_Inr_dict: "py_get v k d = Inr x \<Longrightarrow> is_dict v"
  by (cases v) (simp_all add: is_dict_def)

subsection \<open>On well-formed pages the code computes the specified rows\<close>

lemma py_filter_delivered:
  "list_all is_dict xs \<Longrightarrow> py_filter delivered xs = Inr (filter is_delivered xs)"
  by (induction xs) (simp_all add: delivered_def py_get_dict is_delivered_def)

lemma items_loop_dicts:
  "list_all is_dict xs \<Longrightarrow>
   items_loop oid xs ai =
     Inr (ai @ map (\<lambda>item. [oid, field item ''name'' JNull, field item ''is_veg'' JNull]) xs)"
  by (induction xs arbitrary: ai) (simp_all add: py_get_dict)

lemma orders_loop_raw:
  "list_all raw_order xs \<Longrightarrow>
   orders_loop xs ao ai = Inr (ao @ map order_row xs, ai @ concat (map item_rows xs))"
proof (induction xs arbitrary: ao ai)
  case Nil
  then show ?case by simp
next
  case (Cons x xs)
  then have rx: "raw_order x" and r: "list_all raw_order xs" by simp_all
  from rx have d: "is_dict x" by (simp add: raw_order_def)
  from rx have it:
    "(case field x ''order_items'' JNull of
        JList ys \<Rightarrow> list_all is_dict ys | w \<Rightarrow> \<not> truthy w)"
    by (simp add: raw_order_def)
  show ?case
  proof (cases "field x ''order_items'' JNull")
    case (JList ys)
    with it have "list_all is_dict ys" by simp
    then show ?thesis using JList d
      by (simp add: py_get_dict Cons.IH [OF r] items_loop_dicts order_row_def item_rows_def
          items_of_def Let_def)
  qed (use it d in \<open>simp_all add: py_get_dict Cons.IH [OF r] order_row_def item_rows_def
          items_of_def Let_def\<close>)
qed

lemma process_orders_batch_raw:
  assumes "py_iter orders = Inr xs" and "list_all is_dict xs"
    and "list_all raw_order (filter is_delivered xs)"
  shows "process_orders_batch orders ao ai =
     Inr (ao @ fst (extract_rows xs), ai @ snd (extract_rows xs))"
  using assms
  by (simp add: process_orders_batch_def py_filter_delivered orders_loop_raw extract_rows_def)

lemma raw_orders_are_dicts: "list_all raw_order xs \<Longrightarrow> list_all is_dict xs"
  by (simp add: list_all_iff raw_order_def)

lemma raw_orders_filter: "list_all raw_order xs \<Longrightarrow> list_all raw_order (filter P xs)"
  by (simp add: list_all_iff)

subsection \<open>A page that the code accepts is well formed\<close>

lemma py_filter_Inr: "py_filter delivered xs = Inr ds \<Longrightarrow> list_all is_dict xs"
proof (induction xs arbitrary: ds)
  case Nil
  then show ?case by simp
next
  case (Cons x xs)
  from Cons.prems obtain b ys
    where b: "delivered x = Inr b" and ys: "py_filter delivered xs = Inr ys"
    by (auto simp: and_then_eq_Inr)
  from b have "is_dict x"
    by (auto simp: delivered_def and_then_eq_Inr dest: py_get_Inr_dict)
  with Cons.IH [OF ys] show ?case by simp
qed

lemma items_loop_Inr: "items_loop oid xs ai = Inr r \<Longrightarrow> list_all is_dict xs"
proof (induction xs arbitrary: ai)
  case Nil
  then show ?case by simp
next
  case (Cons x xs)
  from Cons.prems obtain a b where "py_get x ''is_veg'' JNull = Inr a"
    and r: "items_loop oid xs (ai @ [[oid, b, a]]) = Inr r"
    by (auto simp: and_then_eq_Inr)
  then show ?case using Cons.IH [OF r] by (auto dest: py_get_Inr_dict)
qed

lemma truthy_items_raw:
  assumes "truthy v" "py_iter v = Inr xs" "list_all is_dict xs"
  shows "\<exists>ys. v = JList ys \<and> list_all is_dict ys"
proof (cases v)
  case (JStr s)
  with assms obtain c cs where "s = c # cs" by (cases s) auto
  with assms JStr show ?thesis by (auto simp: is_dict_def)
next
  case (JDict kvs)
  with assms obtain kv rest where "kvs = kv # rest" by (cases kvs) auto
  then have "remdups (map fst kvs) \<noteq> []" unfolding remdups_eq_nil_iff by simp
  then obtain k ks where "remdups (map fst kvs) = k # ks"
    by (cases "remdups (map fst kvs)") auto
  with assms JDict show ?thesis by (auto simp: is_dict_def)
qed (use assms in simp_all)

lemma orders_loop_Inr:
  "orders_loop xs ao ai = Inr r \<Longrightarrow> list_all is_dict xs \<Longrightarrow> list_all raw_order xs"
proof (induction xs arbitrary: ao ai)
  case Nil
  then show ?case by simp
next
  case (Cons x xs)
  then have d: "is_dict x" and ds: "list_all is_dict xs" by simp_all
  let ?v = "field x ''order_items'' JNull"
  show ?case
  proof (cases "truthy ?v")
    case True
    with Cons.prems(1) d obtain its ai' ao' where its: "py_iter ?v = Inr its"
      and il: "items_loop (field x ''order_id'' JNull) its ai = Inr ai'"
      and ol: "orders_loop xs ao' ai' = Inr r"
      by (auto simp: py_get_dict and_then_eq_Inr Let_def)
    from truthy_items_raw [OF True its items_loop_Inr [OF il]] d
    have "raw_order x" by (auto simp: raw_order_def)
    with Cons.IH [OF ol ds] show ?thesis by simp
  next
    case False
    with Cons.prems(1) d obtain ao' where ol: "orders_loop xs ao' ai = Inr r"
      by (auto simp: py_get_dict and_then_eq_Inr Let_def)
    from False d have "raw_order x" by (cases ?v) (simp_all add: raw_order_def)
    with Cons.IH [OF ol ds] show ?thesis by simp
  qed
qed

lemma process_orders_batch_Inr:
  assumes "process_orders_batch orders ao ai = Inr r"
  shows "\<exists>xs. py_iter orders = Inr xs \<and> list_all is_dict xs \<and>
           list_all raw_order (filter is_delivered xs) \<and>
           r = (ao @ fst (extract_rows xs), ai @ snd (extract_rows xs))"
proof -
  from assms obtain xs ds where xs: "py_iter orders = Inr xs"
    and ds: "py_filter delivered xs = Inr ds" and ol: "orders_loop ds ao ai = Inr r"
    by (auto simp: process_orders_batch_def and_then_eq_Inr)
  have d: "list_all is_dict xs" by (rule py_filter_Inr [OF ds])
  with ds have eq: "ds = filter is_delivered xs" by (simp add: py_filter_delivered)
  from d have "list_all is_dict ds" unfolding eq by (simp add: list_all_iff)
  then have raw: "list_all raw_order ds" by (rule orders_loop_Inr [OF ol])
  with ol have "r = (ao @ map order_row ds, ai @ concat (map item_rows ds))"
    by (simp add: orders_loop_raw)
  with xs d raw eq show ?thesis by (auto simp: extract_rows_def)
qed

subsection \<open>The rows appended do not depend on the rows already collected\<close>

lemma items_loop_acc:
  "items_loop oid xs ai = and_then (items_loop oid xs []) (\<lambda>r. Inr (ai @ r))"
proof (induction xs arbitrary: ai)
  case Nil
  then show ?case by simp
next
  case (Cons x xs)
  show ?case
  proof (cases "py_get x ''is_veg'' JNull")
    case (Inr a)
    show ?thesis
    proof (cases "py_get x ''name'' JNull")
      case b: (Inr b)
      show ?thesis
        using Inr b Cons.IH [of "ai @ [[oid, b, a]]"] Cons.IH [of "[[oid, b, a]]"]
        by (cases "items_loop oid xs []") simp_all
    qed (simp add: Inr)
  qed simp
qed

lemma orders_loop_acc:
  "orders_loop xs ao ai =
     and_then (orders_loop xs [] []) (\<lambda>(os, is). Inr (ao @ os, ai @ is))"
proof (induction xs arbitrary: ao ai)
  case Nil
  then show ?case by simp
next
  case (Cons x xs)
  show ?case
  proof (cases "is_dict x")
    case False
    then have "py_get x ''order_id'' JNull = Inl AttributeError"
      by (cases x) (simp_all add: is_dict_def)
    then show ?thesis by simp
  next
    case True
    define row where "row = order_row x"
    define oid where "oid = field x ''order_id'' JNull"
    define v where "v = field x ''order_items'' JNull"
    have step: "orders_loop (x # xs) bo bi =
        (if truthy v then
           and_then (py_iter v) (\<lambda>its.
           and_then (items_loop oid its bi) (\<lambda>bi'. orders_loop xs (bo @ [row]) bi'))
         else orders_loop xs (bo @ [row]) bi)" for bo bi
      using True by (simp add: py_get_dict Let_def row_def order_row_def oid_def v_def)
    show ?thesis
    proof (cases "truthy v")
      case False
      show ?thesis
        using False Cons.IH [of "ao @ [row]" ai] Cons.IH [of "[row]" "[]"]
        by (cases "orders_loop xs [] []") (auto simp: step simp del: orders_loop.simps)
    next
      case tr: True
      show ?thesis
      proof (cases "py_iter v")
        case (Inl e)
        then show ?thesis by (simp add: step tr del: orders_loop.simps)
      next
        case (Inr its)
        show ?thesis
        proof (cases "items_loop oid its []")
          case il: (Inl e)
          then show ?thesis using items_loop_acc [of oid its ai]
            by (simp add: step tr Inr del: orders_loop.simps)
        next
          case ir: (Inr r)
          then have "items_loop oid its ai = Inr (ai @ r)"
            using items_loop_acc [of oid its ai] by simp
          then show ?thesis
            using ir Cons.IH [of "ao @ [row]" "ai @ r"] Cons.IH [of "[row]" r]
            by (cases "orders_loop xs [] []")
              (auto simp: step tr Inr simp del: orders_loop.simps)
        qed
      qed
    qed
  qed
qed

subsection \<open>The sample page\<close>

lemma sample_page_raw: "list_all raw_order sample_page"
  by (simp add: sample_page_def order_101_def order_102_def order_103_def raw_order_def
      is_dict_def field_def)

lemma sample_page_delivered: "filter is_delivered sample_page = [order_101, order_103]"
  by (simp add: sample_page_def order_101_def order_102_def order_103_def is_delivered_def
      is_dict_def field_def)

lemma sample_page_extract: "extract_rows sample_page = (sample_order_rows, sample_item_rows)"
  by (simp add: extract_rows_def sample_page_delivered sample_order_rows_def
      sample_item_rows_def order_row_def item_rows_def items_of_def field_def order_101_def
      order_103_def)

subsection \<open>Claims about the extractor\<close>

text \<open>
  C1. For a page of \<open>N\<close> raw orders of which \<open>k\<close> are delivered, the extractor returns,
  and it has appended exactly \<open>k\<close> order rows and as many item rows as the item lists of
  those \<open>k\<close> orders have elements together; a delivered order without items adds none.
\<close>

theorem extractor_counts:
  assumes "list_all raw_order page"
  shows "\<exists>os is. process_orders_batch (JList page) [] [] = Inr (os, is) \<and>
           length os = length (filter is_delivered page) \<and>
           length is = sum_list (map (\<lambda>v. length (items_of v)) (filter is_delivered page))"
proof -
  have "process_orders_batch (JList page) [] [] =
          Inr ([] @ fst (extract_rows page), [] @ snd (extract_rows page))"
    using assms
    by (intro process_orders_batch_raw raw_orders_are_dicts raw_orders_filter) simp_all
  moreover have "length (snd (extract_rows page)) =
      sum_list (map (\<lambda>v. length (items_of v)) (filter is_delivered page))"
    by (simp add: extract_rows_def length_concat item_rows_def comp_def)
  ultimately show ?thesis by (simp add: extract_rows_def)
qed

theorem extractor_counts_witness:
  "list_all raw_order sample_page \<and>
   (\<exists>os is. process_orders_batch (JList sample_page) [] [] = Inr (os, is) \<and>
      length os = 2 \<and> length is = 2)"
proof -
  have k: "length (filter is_delivered sample_page) = 2"
    by (simp add: sample_page_delivered)
  have n: "sum_list (map (\<lambda>v. length (items_of v)) (filter is_delivered sample_page)) = 2"
    by (simp add: sample_page_delivered items_of_def field_def order_101_def order_103_def)
  show ?thesis
    using extractor_counts [OF sample_page_raw] sample_page_raw unfolding k n by blast
qed

text \<open>
  C7. On a page of raw orders the extractor appends, in input order, one order row for
  each order whose status is "Delivered" and the item rows of those orders, as
  \<open>extract_rows\<close> words it: \<open>rain_mode\<close> is false and \<open>on_time\<close> true in the row of an order
  that lacks the field (\<open>order_row\<close>), and the rows already collected stay in front.
\<close>

theorem extractor_filters_defaults_order:
  assumes "list_all raw_order page"
  shows "process_orders_batch (JList page) all_orders all_items =
           Inr (all_orders @ map order_row (filter is_delivered page),
                all_items @ concat (map item_rows (filter is_delivered page)))"
proof -
  have "process_orders_batch (JList page) all_orders all_items =
          Inr (all_orders @ fst (extract_rows page), all_items @ snd (extract_rows page))"
    using assms
    by (intro process_orders_batch_raw raw_orders_are_dicts raw_orders_filter) simp_all
  then show ?thesis by (simp add: extract_rows_def)
qed

theorem extractor_filters_defaults_order_witness:
  "list_all raw_order sample_page \<and>
   process_orders_batch (JList sample_page) [] [] =
     Inr ([[JInt 101, JInt 250, JNull, JNull, JBool False, JBool True],
           [JInt 103, JNull, JNull, JNull, JBool True, JBool False]],
          [[JInt 101, JStr ''Dosa'', JStr ''1''], [JInt 101, JStr ''Idli'', JStr ''1'']])"
  using extractor_filters_defaults_order [OF sample_page_raw, of "[]" "[]"] sample_page_raw
    sample_page_extract
  by (simp add: extract_rows_def sample_order_rows_def sample_item_rows_def)

text \<open>
  C8. The extractor is a function of its page alone: what it appends (or the exception it
  raises) is what it yields on empty lists, whatever rows earlier calls have collected.
  Run again on the same page it appends the same rows again.
\<close>

theorem extractor_deterministic:
  "process_orders_batch page all_orders all_items =
     and_then (process_orders_batch page [] [])
       (\<lambda>(os, is). Inr (all_orders @ os, all_items @ is))"
proof (cases "py_iter page")
  case (Inl e)
  then show ?thesis by (simp add: process_orders_batch_def)
next
  case (Inr xs)
  show ?thesis
  proof (cases "py_filter delivered xs")
    case (Inl e)
    then show ?thesis by (simp add: process_orders_batch_def Inr)
  next
    case ds: (Inr ds)
    show ?thesis using orders_loop_acc [of ds all_orders all_items]
      by (simp add: process_orders_batch_def Inr ds)
  qed
qed

text \<open>
  C9. Whenever the extractor returns, the order rows and the item rows are those of the
  delivered orders of the page and of no other order, every item row starting with the
  \<open>order_id\<close> of the order that owns it (\<open>item_rows\<close>); so every \<open>order_id\<close> of the items
  table is an \<open>order_id\<close> of the orders table.
\<close>

theorem extractor_referential_integrity:
  assumes "process_orders_batch orders [] [] = Inr (os, is)"
  shows "hd ` set is \<subseteq> hd ` set os \<and>
         (\<exists>page. py_iter orders = Inr page \<and>
            os = map order_row (filter is_delivered page) \<and>
            is = concat (map item_rows (filter is_delivered page)))"
proof -
  from process_orders_batch_Inr [OF assms] obtain page
    where page: "py_iter orders = Inr page"
      and os_eq: "os = map order_row (filter is_delivered page)"
      and is_eq: "is = concat (map item_rows (filter is_delivered page))"
    by (auto simp: extract_rows_def)
  have "hd ` set is \<subseteq> hd ` set os"
  proof
    fix x
    assume "x \<in> hd ` set is"
    then obtain v r where v: "v \<in> set (filter is_delivered page)"
      and r: "r \<in> set (item_rows v)" and x: "x = hd r"
      unfolding is_eq by auto
    from r x have "x = hd (order_row v)" by (auto simp: item_rows_def order_row_def)
    with v show "x \<in> hd ` set os" unfolding os_eq by auto
  qed
  with page os_eq is_eq show ?thesis by blast
qed

theorem extractor_referential_integrity_witness:
  "process_orders_batch (JList sample_page) [] [] = Inr (sample_order_rows, sample_item_rows) \<and>
   hd ` set sample_item_rows \<subseteq> hd ` set sample_order_rows"
proof -
  have run: "process_orders_batch (JList sample_page) [] [] =
      Inr (sample_order_rows, sample_item_rows)"
    using process_orders_batch_raw [of "JList sample_page" sample_page "[]" "[]"]
      sample_page_raw
    by (simp add: raw_orders_are_dicts raw_orders_filter sample_page_extract)
  from extractor_referential_integrity [OF run] run show ?thesis by simp
qed

section \<open>The page count\<close>

text \<open>The rounded quotient is within one half of the exact one.\<close>

lemma round_half_even_bound:
  assumes "0 < d"
  shows "\<bar>2 * (d * round_half_even n d - n)\<bar> \<le> d"
proof -
  define q where "q = n div d"
  define r where "r = n mod d"
  have n: "n = d * q + r" and r: "0 \<le> r" "r < d"
    using assms by (simp_all add: q_def r_def)
  have "round_half_even n d = q \<and> 2 * r \<le> d \<or> round_half_even n d = q + 1 \<and> d \<le> 2 * r"
    by (auto simp: round_half_even_def Let_def q_def r_def)
  then show ?thesis
  proof
    assume "round_half_even n d = q \<and> 2 * r \<le> d"
    then show ?thesis using n r by (simp add: algebra_simps)
  next
    assume "round_half_even n d = q + 1 \<and> d \<le> 2 * r"
    then show ?thesis using n r by (simp add: algebra_simps)
  qed
qed

text \<open>\<open>binade10\<close> finds the power of two at or below the quotient.\<close>

lemma binade10_test:
  "(if 0 \<le> d then 10 * 2 ^ nat d \<le> a else 10 \<le> a * 2 ^ nat (- d))
     \<longleftrightarrow> 10 * 2 powi d \<le> real_of_int a"
proof (cases "0 \<le> d")
  case True
  have "(10 * 2 ^ nat d \<le> a) = (real_of_int (10 * 2 ^ nat d) \<le> real_of_int a)"
    by linarith
  with True show ?thesis by (simp add: power_int_def)
next
  case False
  have "(10 \<le> a * 2 ^ nat (- d)) = (real_of_int 10 \<le> real_of_int (a * 2 ^ nat (- d)))"
    by linarith
  with False show ?thesis by (simp add: power_int_def field_simps)
qed

lemma binade10_bounds:
  assumes "0 < a"
  shows "10 * 2 powi binade10 a \<le> real_of_int a \<and> real_of_int a < 10 * 2 powi (binade10 a + 1)"
proof -
  define l where "l = bitlen a"
  define d where "d = l - 4"
  from assms have l: "1 \<le> l" using bitlen_eq_zero_iff [of a] bitlen_nonneg [of a]
    by (simp add: l_def)
  from bitlen_bounds [OF assms]
  have "real_of_int (2 ^ nat (l - 1)) \<le> real_of_int a" "real_of_int a < real_of_int (2 ^ nat l)"
    unfolding l_def by linarith+
  with l have b: "2 powi (l - 1) \<le> real_of_int a" "real_of_int a < 2 powi l"
    by (simp_all add: power_int_def)
  have p1: "(2::real) powi (l - 1) = 8 * 2 powi d"
    using power_int_add [of "2::real" d 3] by (simp add: d_def)
  have p2: "(2::real) powi l = 16 * 2 powi d"
    using power_int_add [of "2::real" d 4] by (simp add: d_def)
  have p3: "(2::real) powi (d + 1) = 2 * 2 powi d"
    using power_int_add [of "2::real" d 1] by simp
  have p4: "(2::real) powi d = 2 * 2 powi (d - 1)"
    using power_int_add [of "2::real" "d - 1" 1] by simp
  have pos: "0 < (2::real) powi d" by simp
  have bd: "binade10 a = (if 10 * 2 powi d \<le> real_of_int a then d else d - 1)"
    unfolding binade10_def Let_def l_def [symmetric] d_def [symmetric]
    by (simp only: binade10_test)
  show ?thesis
  proof (cases "10 * 2 powi d \<le> real_of_int a")
    case True
    then have "binade10 a = d" by (simp add: bd)
    with True b p2 p3 pos show ?thesis by simp
  next
    case False
    then have k: "binade10 a = d - 1" by (simp add: bd)
    have "0 < (2::real) powi (d - 1)" by simp
    with b p1 p4 have "10 * 2 powi (d - 1) \<le> real_of_int a" by linarith
    with False k show ?thesis by simp
  qed
qed

lemma binade10_small:
  assumes "0 < a" "a < 10 ^ 16"
  shows "binade10 a \<le> 49"
proof -
  have "a < 2 ^ nat 54" using assms by simp
  then have "bitlen a \<le> 54" by (simp add: bitlen_le_iff_power)
  moreover have "\<not> 10 * 2 ^ nat 50 \<le> a" using assms by simp
  ultimately show ?thesis
    by (cases "bitlen a = 54") (auto simp: binade10_def Let_def)
qed

lemma ceil_unique_int:
  fixes P m c :: int
  assumes "0 < P" "P * (c - 1) < m" "m \<le> P * c"
  shows "- ((- m) div P) = c"
proof -
  have "\<lceil>real_of_int m / real_of_int P\<rceil> = c"
  proof (rule ceiling_unique)
    from assms(1,2) have "real_of_int (P * (c - 1)) < real_of_int m" by linarith
    then show "real_of_int c - 1 < real_of_int m / real_of_int P"
      using assms(1) by (simp add: field_simps)
    from assms(3) have "real_of_int m \<le> real_of_int (P * c)" by linarith
    then show "real_of_int m / real_of_int P \<le> real_of_int c"
      using assms(1) by (simp add: field_simps)
  qed
  then show ?thesis by (simp add: ceiling_divide_eq_div)
qed

lemma floor_unique_int:
  fixes P m f :: int
  assumes "0 < P" "P * f \<le> m" "m < P * (f + 1)"
  shows "m div P = f"
proof -
  have "\<lfloor>real_of_int m / real_of_int P\<rfloor> = f"
  proof (rule floor_unique)
    from assms(2) have "real_of_int (P * f) \<le> real_of_int m" by linarith
    then show "real_of_int f \<le> real_of_int m / real_of_int P"
      using assms(1) by (simp add: field_simps)
    from assms(3) have "real_of_int m < real_of_int (P * (f + 1))" by linarith
    then show "real_of_int m / real_of_int P < real_of_int f + 1"
      using assms(1) by (simp add: field_simps)
  qed
  then show ?thesis by (simp add: floor_divide_of_int_eq)
qed

text \<open>
  Below \<open>10\<^sup>1\<^sup>6\<close> in magnitude the double is within \<open>1/16\<close> of the quotient, which is an
  integer or at least \<open>1/10\<close> away from one: \<^verbatim>\<open>ceil(count/10)\<close> is the exact ceiling.
\<close>

lemma ceil_div10_small:
  assumes "\<bar>T\<bar> < 10 ^ 16"
  shows "ceil_div10 T = Inr (- ((- T) div 10))"
proof (cases "T = 0")
  case True
  then show ?thesis by (simp add: ceil_div10_def div10_double_def py_ceil_def)
next
  case False
  define a where "a = \<bar>T\<bar>"
  define e where "e = binade10 a - 52"
  define s where "s = nat (- e)"
  define P :: int where "P = 2 ^ s"
  define m where "m = round_half_even (a * P) 10"
  from False assms have a: "0 < a" "a < 10 ^ 16" by (simp_all add: a_def)
  from binade10_small [OF a] have e: "e \<le> - 3" by (simp add: e_def)
  then have s: "3 \<le> s" by (simp add: s_def)
  have "(2::int) ^ 3 \<le> 2 ^ s" using s by (intro power_increasing) simp_all
  then have P: "8 \<le> P" by (simp add: P_def)
  from round_half_even_bound [of 10 "a * P"]
  have m: "10 * m - a * P \<le> 5" "a * P - 10 * m \<le> 5" by (simp_all add: m_def)
  have "div10_double T = Inr (sgn T * m, e)"
    unfolding div10_double_def Let_def a_def [symmetric] e_def [symmetric]
    using False e by (simp add: m_def P_def s_def)
  then have run: "ceil_div10 T = Inr (- ((- (sgn T * m)) div P))"
    using e by (simp add: ceil_div10_def py_ceil_def P_def s_def)
  show ?thesis
  proof (cases "0 < T")
    case True
    define c where "c = - ((- T) div 10)"
    have c: "10 * (c - 1) + 1 \<le> a" "a \<le> 10 * c" using True by (simp_all add: c_def a_def)
    from c(1) P have "(10 * (c - 1) + 1) * P \<le> a * P" by (intro mult_right_mono) simp_all
    then have lo: "10 * (P * c) - 10 * P + P \<le> a * P" by (simp add: algebra_simps)
    from c(2) P have "a * P \<le> (10 * c) * P" by (intro mult_right_mono) simp_all
    then have hi: "a * P \<le> 10 * (P * c)" by (simp add: algebra_simps)
    from lo m P have "P * c - P < m" by linarith
    then have 1: "P * (c - 1) < m" by (simp add: algebra_simps)
    from hi m have 2: "m \<le> P * c" by linarith
    from P have "0 < P" by simp
    from ceil_unique_int [OF this 1 2] True show ?thesis
      by (simp add: run c_def)
  next
    case neg: False
    with False have T: "T < 0" by simp
    define f where "f = a div 10"
    have f: "10 * f \<le> a" "a \<le> 10 * f + 9" by (simp_all add: f_def)
    from f(1) P have "(10 * f) * P \<le> a * P" by (intro mult_right_mono) simp_all
    then have lo: "10 * (P * f) \<le> a * P" by (simp add: algebra_simps)
    from f(2) P have "a * P \<le> (10 * f + 9) * P" by (intro mult_right_mono) simp_all
    then have hi: "a * P \<le> 10 * (P * f) + 9 * P" by (simp add: algebra_simps)
    from lo m have 1: "P * f \<le> m" by linarith
    from hi m P have "m < P * f + P" by linarith
    then have 2: "m < P * (f + 1)" by (simp add: algebra_simps)
    from P have "0 < P" by simp
    from floor_unique_int [OF this 1 2] T show ?thesis
      by (simp add: run f_def a_def)
  qed
qed

lemma ceiling_tenth: "\<lceil>real_of_int T / 10\<rceil> = - ((- T) div 10)"
  using ceiling_divide_eq_div [of T 10] by simp

lemma pages_of_ceiling:
  "\<bar>T\<bar> < 10 ^ 16 \<Longrightarrow> pages_of (JInt T) = Inr \<lceil>real_of_int T / 10\<rceil>"
  by (simp add: ceil_div10_small ceiling_tenth)

lemma ceil_div10_samples: "ceil_div10 0 = Inr 0" "ceil_div10 1 = Inr 1" "ceil_div10 23 = Inr 3"
  by (simp_all add: ceil_div10_small)

text \<open>
  From \<open>10\<^sup>1\<^sup>6\<close> on the rounding shows: a page count one below the exact ceiling,
  one above it, and a count too large for a double.
\<close>

lemma ceil_div10_rounds_down: "ceil_div10 11258999068426241 = Inr 1125899906842624"
  by code_simp

lemma ceil_div10_rounds_up: "ceil_div10 90071992547409950 = Inr 9007199254740996"
  by code_simp

lemma ceil_div10_overflow: "ceil_div10 (10 ^ 400) = Inl OverflowError"
  by code_simp

section \<open>Properties of a page fetch\<close>

lemma requests_append [simp]: "requests (xs @ ys) = requests xs @ requests ys"
  by (induction xs rule: requests.induct) simp_all

lemma page_fetches_append [simp]: "page_fetches (xs @ ys) = page_fetches xs + page_fetches ys"
  by (induction xs rule: page_fetches.induct) simp_all

lemma fetch_orders_page_connection_error:
  assumes "srv (length (requests tr)) (Some c) = Raises ConnectionError"
  shows "fetch_orders_page srv c tr =
     ((case srv (Suc (length (requests tr))) (Some c) of
         Raises e \<Rightarrow> Inl e | Response body \<Rightarrow> orders_of_response body),
      tr @ [Get (Some c), Sleep 2, Get (Some c)])"
  using assms by (simp add: fetch_orders_page_def session_get_def split: outcome.split)

lemma fetch_orders_page_other_error:
  assumes "srv (length (requests tr)) (Some c) = Raises e" "e \<noteq> ConnectionError"
  shows "fetch_orders_page srv c tr = (Inl (Exception_wrap e), tr @ [Get (Some c)])"
  using assms by (simp add: fetch_orders_page_def session_get_def)

lemma fetch_orders_page_bad_response:
  assumes "srv (length (requests tr)) (Some c) = Response body" "orders_of_response body = Inl e"
  shows "fetch_orders_page srv c tr = (Inl (Exception_wrap e), tr @ [Get (Some c)])"
  using assms by (simp add: fetch_orders_page_def session_get_def)

lemma pages_loop_fetch_error:
  assumes "fetch_orders_page srv c
             (tr @ [Progress i pages, Status_text (Fetching_page (i + 1) pages)]) = (Inl e, tr')"
  shows "pages_loop srv pages (i # rest) c ao ai tr =
           (Inr (ao, ai), tr' @ [St_error (Error_fetching_page (i + 1) e)])"
  using assms by simp

subsection \<open>Claims about the retry policy\<close>

text \<open>
  C2, as the code has it. A connection error on the first request of a page fetch causes
  exactly one retry, after a sleep of two seconds, with the same cursor; what the retried
  request yields (its orders, or the exception it raises, as raised) is what the fetch
  yields. Any other exception of the first attempt, a malformed response included, is
  raised to the caller wrapped in a generic exception, with no retry. Whatever exception
  the fetch raises, the caller reports it and stops paginating with the rows collected.
\<close>

theorem fetch_orders_page_retry_policy:
  "(srv (length (requests tr)) (Some c) = Raises ConnectionError \<longrightarrow>
      fetch_orders_page srv c tr =
        ((case srv (Suc (length (requests tr))) (Some c) of
            Raises e \<Rightarrow> Inl e | Response body \<Rightarrow> orders_of_response body),
         tr @ [Get (Some c), Sleep 2, Get (Some c)])) \<and>
   (srv (length (requests tr)) (Some c) = Raises e \<and> e \<noteq> ConnectionError \<longrightarrow>
      fetch_orders_page srv c tr = (Inl (Exception_wrap e), tr @ [Get (Some c)])) \<and>
   (srv (length (requests tr)) (Some c) = Response body \<and> orders_of_response body = Inl e \<longrightarrow>
      fetch_orders_page srv c tr = (Inl (Exception_wrap e), tr @ [Get (Some c)])) \<and>
   (fetch_orders_page srv c
        (tr @ [Progress i pages, Status_text (Fetching_page (i + 1) pages)]) = (Inl e, tr') \<longrightarrow>
      pages_loop srv pages (i # rest) c ao ai tr =
        (Inr (ao, ai), tr' @ [St_error (Error_fetching_page (i + 1) e)]))"
proof (intro conjI impI)
  assume "srv (length (requests tr)) (Some c) = Raises ConnectionError"
  then show "fetch_orders_page srv c tr =
        ((case srv (Suc (length (requests tr))) (Some c) of
            Raises e \<Rightarrow> Inl e | Response body \<Rightarrow> orders_of_response body),
         tr @ [Get (Some c), Sleep 2, Get (Some c)])"
    by (rule fetch_orders_page_connection_error)
next
  assume "srv (length (requests tr)) (Some c) = Raises e \<and> e \<noteq> ConnectionError"
  then show "fetch_orders_page srv c tr = (Inl (Exception_wrap e), tr @ [Get (Some c)])"
    by (simp add: fetch_orders_page_other_error)
next
  assume "srv (length (requests tr)) (Some c) = Response body \<and>
    orders_of_response body = Inl e"
  then show "fetch_orders_page srv c tr = (Inl (Exception_wrap e), tr @ [Get (Some c)])"
    by (simp add: fetch_orders_page_bad_response)
next
  assume "fetch_orders_page srv c
        (tr @ [Progress i pages, Status_text (Fetching_page (i + 1) pages)]) = (Inl e, tr')"
  then show "pages_loop srv pages (i # rest) c ao ai tr =
        (Inr (ao, ai), tr' @ [St_error (Error_fetching_page (i + 1) e)])"
    by (rule pages_loop_fetch_error)
qed

text \<open>
  The claim as stated has the error of a failed retry wrapped. With a server that is
  unreachable twice the second \<open>ConnectionError\<close> reaches the caller as it is.
\<close>

theorem retry_failure_not_wrapped:
  "always_down 0 (Some (JInt 103)) = Raises ConnectionError \<and>
   always_down 1 (Some (JInt 103)) = Raises ConnectionError \<and>
   fetch_orders_page always_down (JInt 103) [] =
     (Inl ConnectionError, [Get (Some (JInt 103)), Sleep 2, Get (Some (JInt 103))]) \<and>
   \<not> is_wrapped (fst (fetch_orders_page always_down (JInt 103) []))"
  by (simp add: always_down_def fetch_orders_page_def session_get_def is_wrapped_def)

theorem fetch_orders_page_retry_policy_witness:
  "fetch_orders_page down_once (JInt 103) [] =
     (Inr (JList [order_104]), [Get (Some (JInt 103)), Sleep 2, Get (Some (JInt 103))]) \<and>
   fetch_orders_page timed_out (JInt 103) [] =
     (Inl (Exception_wrap RequestException), [Get (Some (JInt 103))]) \<and>
   fetch_orders_page garbled (JInt 103) [] =
     (Inl (Exception_wrap JSONDecodeError), [Get (Some (JInt 103))]) \<and>
   pages_loop timed_out 3 [1, 2] (JInt 103) sample_order_rows sample_item_rows [] =
     (Inr (sample_order_rows, sample_item_rows),
      [Progress 1 3, Status_text (Fetching_page 2 3), Get (Some (JInt 103)),
       St_error (Error_fetching_page 2 (Exception_wrap RequestException))])"
proof -
  have a: "down_once (length (requests [])) (Some (JInt 103)) = Raises ConnectionError"
    by (simp add: down_once_def)
  have b: "timed_out (length (requests [])) (Some (JInt 103)) = Raises RequestException \<and>
      RequestException \<noteq> ConnectionError"
    by (simp add: timed_out_def)
  have c: "garbled (length (requests [])) (Some (JInt 103)) = Response None \<and>
      orders_of_response None = Inl JSONDecodeError"
    by (simp add: garbled_def orders_of_response_def)
  have d: "fetch_orders_page timed_out (JInt 103)
      ([] @ [Progress 1 3, Status_text (Fetching_page (1 + 1) 3)]) =
      (Inl (Exception_wrap RequestException),
       [Progress 1 3, Status_text (Fetching_page 2 3), Get (Some (JInt 103))])"
    by (simp add: fetch_orders_page_def session_get_def timed_out_def)
  have e: "orders_of_response (response_body (JList [order_104]) 23) = Inr (JList [order_104])"
    by (simp add: orders_of_response_def response_body_def)
  from fetch_orders_page_retry_policy [where srv = down_once and tr = "[]" and c = "JInt 103"] a e
  have 1: "fetch_orders_page down_once (JInt 103) [] =
     (Inr (JList [order_104]), [Get (Some (JInt 103)), Sleep 2, Get (Some (JInt 103))])"
    by (simp add: down_once_def)
  from fetch_orders_page_retry_policy [where srv = timed_out and tr = "[]" and c = "JInt 103"
      and e = RequestException] b
  have 2: "fetch_orders_page timed_out (JInt 103) [] =
     (Inl (Exception_wrap RequestException), [Get (Some (JInt 103))])"
    by simp
  from fetch_orders_page_retry_policy [where srv = garbled and tr = "[]" and c = "JInt 103"
      and body = None and e = JSONDecodeError] c
  have 3: "fetch_orders_page garbled (JInt 103) [] =
     (Inl (Exception_wrap JSONDecodeError), [Get (Some (JInt 103))])"
    by simp
  from fetch_orders_page_retry_policy [where srv = timed_out and tr = "[]" and c = "JInt 103"
      and e = "Exception_wrap RequestException" and i = 1 and pages = 3 and rest = "[2]"
      and tr' = "[Progress 1 3, Status_text (Fetching_page 2 3), Get (Some (JInt 103))]"
      and ao = sample_order_rows and ai = sample_item_rows] d
  have 4: "pages_loop timed_out 3 [1, 2] (JInt 103) sample_order_rows sample_item_rows [] =
     (Inr (sample_order_rows, sample_item_rows),
      [Progress 1 3, Status_text (Fetching_page 2 3), Get (Some (JInt 103)),
       St_error (Error_fetching_page 2 (Exception_wrap RequestException))])"
    by simp
  from 1 2 3 4 show ?thesis by blast
qed

section \<open>Properties of the pagination loop\<close>

text \<open>
  A page fetch announces nothing itself and sends one request, or two when the first
  fails with a connection error; the orders it returns are those of its last request.
\<close>

lemma fetch_orders_page_requests:
  assumes "fetch_orders_page srv c tr = (r, tr1)"
  shows "page_fetches tr1 = page_fetches tr \<and>
    ((requests tr1 = requests tr @ [Some c] \<and>
      (\<forall>orders. r = Inr orders \<longrightarrow>
         (\<exists>body. srv (length (requests tr)) (Some c) = Response body \<and>
                 orders_of_response body = Inr orders))) \<or>
     (requests tr1 = requests tr @ [Some c, Some c] \<and>
      srv (length (requests tr)) (Some c) = Raises ConnectionError \<and>
      (\<forall>orders. r = Inr orders \<longrightarrow>
         (\<exists>body. srv (Suc (length (requests tr))) (Some c) = Response body \<and>
                 orders_of_response body = Inr orders))))"
  using assms
  by (auto simp: fetch_orders_page_def session_get_def
      split: outcome.splits if_splits sum.splits)

text \<open>
  One iteration of the loop either ends it with the rows collected so far (\<open>break\<close>),
  raises outside the \<^verbatim>\<open>try\<close> block, or goes on with the cursor and the rows of the page
  just processed.
\<close>

lemma pages_loop_Cons_cases:
  obtains
    (break) r tr1 extra where
      "fetch_orders_page srv c
         (tr @ [Progress i pages, Status_text (Fetching_page (i + 1) pages)]) = (r, tr1)"
      "pages_loop srv pages (i # rest) c ao ai tr = (Inr (ao, ai), tr1 @ extra)"
      "requests extra = []" "page_fetches extra = 0"
  | (raise) orders tr1 e where
      "fetch_orders_page srv c
         (tr @ [Progress i pages, Status_text (Fetching_page (i + 1) pages)]) = (Inr orders, tr1)"
      "pages_loop srv pages (i # rest) c ao ai tr = (Inl e, tr1)"
      "py_len orders = Inl e \<or> process_orders_batch orders ao ai = Inl e \<or>
       (\<exists>n. py_len orders = Inr n \<and> n \<noteq> 0 \<and> last_order_id orders = Inl e)"
  | (continue) orders tr1 n ao' ai' c' where
      "fetch_orders_page srv c
         (tr @ [Progress i pages, Status_text (Fetching_page (i + 1) pages)]) = (Inr orders, tr1)"
      "py_len orders = Inr n" "n \<noteq> 0"
      "process_orders_batch orders ao ai = Inr (ao', ai')"
      "last_order_id orders = Inr c'"
      "pages_loop srv pages (i # rest) c ao ai tr =
         pages_loop srv pages rest c' ao' ai' (tr1 @ [Sleep (3 / 2)])"
proof -
  obtain r tr1 where f: "fetch_orders_page srv c
      (tr @ [Progress i pages, Status_text (Fetching_page (i + 1) pages)]) = (r, tr1)"
    by (cases "fetch_orders_page srv c
      (tr @ [Progress i pages, Status_text (Fetching_page (i + 1) pages)])") auto
  show thesis
  proof (cases r)
    case (Inl e)
    with f show thesis by (intro break [of r tr1 "[St_error (Error_fetching_page (i + 1) e)]"]) simp_all
  next
    case orders: (Inr orders)
    show thesis
    proof (cases "py_len orders")
      case (Inl e)
      with f orders show thesis by (intro raise [of orders tr1 e]) simp_all
    next
      case n: (Inr n)
      show thesis
      proof (cases "n = 0")
        case True
        with f orders n show thesis
          by (intro break [of r tr1 "[Status_text No_more_orders]"]) simp_all
      next
        case False
        show thesis
        proof (cases "process_orders_batch orders ao ai")
          case (Inl e)
          with f orders n False show thesis by (intro raise [of orders tr1 e]) simp_all
        next
          case p: (Inr p)
          obtain ao' ai' where p': "p = (ao', ai')" by (cases p) auto
          show thesis
          proof (cases "last_order_id orders")
            case (Inl e)
            with f orders n False p p' show thesis by (intro raise [of orders tr1 e]) simp_all
          next
            case (Inr c')
            with f orders n False p p' show thesis
              by (intro continue [of orders tr1 n ao' ai' c']) simp_all
          qed
        qed
      qed
    qed
  qed
qed

lemma pages_loop_fetch_bound:
  "page_fetches (snd (pages_loop srv pages idxs c ao ai tr)) \<le> page_fetches tr + length idxs \<and>
   length (requests (snd (pages_loop srv pages idxs c ao ai tr)))
     \<le> length (requests tr) + 2 * length idxs"
proof (induction idxs arbitrary: c ao ai tr)
  case Nil
  then show ?case by simp
next
  case (Cons i rest)
  let ?tr0 = "tr @ [Progress i pages, Status_text (Fetching_page (i + 1) pages)]"
  have tr0: "page_fetches ?tr0 = Suc (page_fetches tr)" "requests ?tr0 = requests tr"
    by simp_all
  show ?case
  proof (cases rule: pages_loop_Cons_cases [of srv c tr i pages rest ao ai])
    case (break r tr1 extra)
    from fetch_orders_page_requests [OF break(1)] tr0 break(2-4) show ?thesis by auto
  next
    case (raise orders tr1 e)
    from fetch_orders_page_requests [OF raise(1)] tr0 raise(2) show ?thesis by auto
  next
    case (continue orders tr1 n ao' ai' c')
    from fetch_orders_page_requests [OF continue(1)] tr0
    have "page_fetches (tr1 @ [Sleep (3 / 2)]) = Suc (page_fetches tr)"
      and "length (requests (tr1 @ [Sleep (3 / 2)])) \<le> length (requests tr) + 2"
      by auto
    with Cons.IH [of c' ao' ai' "tr1 @ [Sleep (3 / 2)]"] continue(6) show ?thesis
      by (simp del: pages_loop.simps)
  qed
qed

lemma pages_loop_keeps_rows:
  "fst (pages_loop srv pages idxs c ao ai tr) = Inr (ao', ai') \<Longrightarrow>
   \<exists>os is. ao' = ao @ os \<and> ai' = ai @ is"
proof (induction idxs arbitrary: c ao ai tr)
  case Nil
  then show ?case by simp
next
  case (Cons i rest)
  show ?case
  proof (cases rule: pages_loop_Cons_cases [of srv c tr i pages rest ao ai])
    case (break r tr1 extra)
    with Cons.prems show ?thesis by simp
  next
    case (raise orders tr1 e)
    with Cons.prems show ?thesis by simp
  next
    case (continue orders tr1 n bo bi c')
    from Cons.prems continue(6)
    have "fst (pages_loop srv pages rest c' bo bi (tr1 @ [Sleep (3 / 2)])) = Inr (ao', ai')"
      by (simp del: pages_loop.simps)
    from Cons.IH [OF this] obtain os "is" where "ao' = bo @ os" "ai' = bi @ is" by blast
    moreover from process_orders_batch_Inr [OF continue(4)]
    obtain ps qs where "bo = ao @ ps" "bi = ai @ qs" by auto
    ultimately show ?thesis by simp
  qed
qed

lemma cursor_chain_Cons:
  "cursor_chain srv n (c # cs) =
     (cs = [] \<or> (cursor_step srv n c (hd cs) \<and> cursor_chain srv (Suc n) cs))"
  by (cases cs) simp_all

lemma make_tables_trace [simp]:
  "requests (snd (make_tables x)) = requests (snd x)"
  "page_fetches (snd (make_tables x)) = page_fetches (snd x)"
  by (auto simp: make_tables_def split: prod.splits sum.splits)

lemma pages_loop_cursors:
  "\<exists>cs. requests (snd (pages_loop srv pages idxs c ao ai tr)) = requests tr @ cs \<and>
        cursor_chain srv (length (requests tr)) cs \<and> (cs \<noteq> [] \<longrightarrow> hd cs = Some c)"
proof (induction idxs arbitrary: c ao ai tr)
  case Nil
  then show ?case by simp
next
  case (Cons i rest)
  let ?tr0 = "tr @ [Progress i pages, Status_text (Fetching_page (i + 1) pages)]"
  let ?n = "length (requests tr)"
  have tr0: "requests ?tr0 = requests tr" by simp
  have first: "\<exists>cs. requests tr1 = requests tr @ cs \<and> cursor_chain srv ?n cs \<and> hd cs = Some c
      \<and> cs \<noteq> []"
    if "fetch_orders_page srv c ?tr0 = (r, tr1)" for r tr1
    using fetch_orders_page_requests [OF that] tr0 by (auto simp: cursor_step_def)
  show ?case
  proof (cases rule: pages_loop_Cons_cases [of srv c tr i pages rest ao ai])
    case (break r tr1 extra)
    with first [OF break(1)] show ?thesis by auto
  next
    case (raise orders tr1 e)
    with first [OF raise(1)] show ?thesis by auto
  next
    case (continue orders tr1 n ao' ai' c')
    from Cons.IH [of c' ao' ai' "tr1 @ [Sleep (3 / 2)]"] continue(6)
    obtain ds where ds: "requests (snd (pages_loop srv pages (i # rest) c ao ai tr)) =
        requests tr1 @ ds"
      and chain: "cursor_chain srv (length (requests tr1)) ds"
      and hd_ds: "ds \<noteq> [] \<longrightarrow> hd ds = Some c'"
      by (auto simp del: pages_loop.simps)
    from fetch_orders_page_requests [OF continue(1)] tr0
    consider
      (single) body where "requests tr1 = requests tr @ [Some c]"
        "srv ?n (Some c) = Response body" "orders_of_response body = Inr orders"
    | (retried) body where "requests tr1 = requests tr @ [Some c, Some c]"
        "srv ?n (Some c) = Raises ConnectionError"
        "srv (Suc ?n) (Some c) = Response body" "orders_of_response body = Inr orders"
      by auto
    then show ?thesis
    proof cases
      case single
      then have "cursor_step srv ?n (Some c) (Some c')"
        using continue(5) by (simp add: cursor_step_def)
      with single(1) ds chain hd_ds
      have "requests (snd (pages_loop srv pages (i # rest) c ao ai tr)) =
          requests tr @ (Some c # ds) \<and> cursor_chain srv ?n (Some c # ds)"
        by (auto simp: cursor_chain_Cons)
      then show ?thesis by (intro exI [of _ "Some c # ds"]) simp
    next
      case retried
      then have "cursor_step srv ?n (Some c) (Some c)"
        and "cursor_step srv (Suc ?n) (Some c) (Some c')"
        using continue(5) by (simp_all add: cursor_step_def)
      with retried(1) ds chain hd_ds
      have "requests (snd (pages_loop srv pages (i # rest) c ao ai tr)) =
          requests tr @ (Some c # Some c # ds) \<and> cursor_chain srv ?n (Some c # Some c # ds)"
        by (auto simp: cursor_chain_Cons)
      then show ?thesis by (intro exI [of _ "Some c # Some c # ds"]) simp
    qed
  qed
qed

lemma fetch_swiggy_orders_cases:
  obtains
    (early) extra where
      "snd (fetch_swiggy_orders srv tr) = tr @ Get None # extra"
      "requests extra = []" "page_fetches extra = 0"
  | (loop) j data orders ao ai pages c where
      "srv (length (requests tr)) None = Response (Some j)"
      "py_get j ''data'' JNull = Inr data" "truthy data"
      "py_get data ''orders'' (JList []) = Inr orders" "orders \<noteq> JList []"
      "process_orders_batch orders [] [] = Inr (ao, ai)"
      "pages_of (field data ''total_orders'' (JInt 0)) = Inr pages"
      "last_order_id orders = Inr c"
      "fetch_swiggy_orders srv tr =
         make_tables (pages_loop srv pages [1..pages - 1] c ao ai
           (tr @ [Get None, Status_text (Found_orders (field data ''total_orders'' (JInt 0)))]))"
proof (cases "srv (length (requests tr)) None")
  case (Raises e)
  then show thesis
    by (intro early [of "[]"]) (simp_all add: fetch_swiggy_orders_def session_get_def)
next
  case (Response body)
  show thesis
  proof (cases body)
    case None
    with Response show thesis
      by (intro early [of "[]"]) (simp_all add: fetch_swiggy_orders_def session_get_def)
  next
    case (Some j)
    note start = Response Some
    show thesis
    proof (cases "py_get j ''data'' JNull")
      case (Inl e)
      with start show thesis
        by (intro early [of "[]"]) (simp_all add: fetch_swiggy_orders_def session_get_def)
    next
      case data: (Inr data)
      show thesis
      proof (cases "truthy data")
        case False
        with start data show thesis
          by (intro early [of "[St_error Unable_to_fetch_orders]"])
            (simp_all add: fetch_swiggy_orders_def session_get_def)
      next
        case True
        show thesis
        proof (cases "py_get data ''orders'' (JList [])")
          case (Inl e)
          with start data True show thesis
            by (intro early [of "[]"]) (simp_all add: fetch_swiggy_orders_def session_get_def)
        next
          case orders: (Inr orders)
          then have d: "is_dict data" by (rule py_get_Inr_dict)
          show thesis
          proof (cases "orders = JList []")
            case e: True
            with start data True orders show thesis
              by (intro early [of "[St_info No_order_placed]"])
                (simp_all add: fetch_swiggy_orders_def session_get_def)
          next
            case ne: False
            show thesis
            proof (cases "process_orders_batch orders [] []")
              case (Inl e)
              with start data True orders ne show thesis
                by (intro early [of "[]"])
                  (simp_all add: fetch_swiggy_orders_def session_get_def)
            next
              case p: (Inr p)
              obtain ao ai where p': "p = (ao, ai)" by (cases p) auto
              show thesis
              proof (cases "pages_of (field data ''total_orders'' (JInt 0))")
                case (Inl e)
                with start data True orders ne p p' d show thesis
                  by (intro early [of "[]"])
                    (simp_all add: fetch_swiggy_orders_def session_get_def py_get_dict)
              next
                case pages: (Inr pages)
                show thesis
                proof (cases "last_order_id orders")
                  case (Inl e)
                  with start data True orders ne p p' d pages show thesis
                    by (intro early [of "[Status_text
                          (Found_orders (field data ''total_orders'' (JInt 0)))]"])
                      (simp_all add: fetch_swiggy_orders_def session_get_def py_get_dict)
                next
                  case (Inr c)
                  with start data True orders ne p p' d pages show thesis
                    by (intro loop [of j data orders ao ai pages c])
                      (simp_all add: fetch_swiggy_orders_def session_get_def py_get_dict)
                qed
              qed
            qed
          qed
        qed
      qed
    qed
  qed
qed

subsection \<open>The exceptions that can leave the extractor and the loop\<close>

lemma and_then_eq_Inl:
  "and_then m f = Inl e \<longleftrightarrow> m = Inl e \<or> (\<exists>x. m = Inr x \<and> f x = Inl e)"
  by (cases m) simp_all

lemma py_get_error: "py_get v k d = Inl e \<Longrightarrow> e = AttributeError"
  by (cases v) simp_all

lemma py_iter_error: "py_iter v = Inl e \<Longrightarrow> e = TypeError"
  by (cases v) simp_all

lemma py_len_error: "py_len v = Inl e \<Longrightarrow> e = TypeError"
  by (cases v) simp_all

lemma div10_double_error: "div10_double n = Inl e \<Longrightarrow> e = OverflowError"
  by (auto simp: div10_double_def Let_def split: if_splits)

lemma pages_of_error: "pages_of v = Inl e \<Longrightarrow> e = TypeError \<or> e = OverflowError"
  by (cases v) (auto simp: ceil_div10_def and_then_eq_Inl dest: div10_double_error)

lemma py_filter_error: "py_filter delivered xs = Inl e \<Longrightarrow> e = AttributeError"
  by (induction xs) (auto simp: and_then_eq_Inl delivered_def dest: py_get_error)

lemma items_loop_error: "items_loop oid xs ai = Inl e \<Longrightarrow> e = AttributeError"
  by (induction xs arbitrary: ai) (auto simp: and_then_eq_Inl dest: py_get_error)

lemma orders_loop_error:
  "orders_loop xs ao ai = Inl e \<Longrightarrow> e = AttributeError \<or> e = TypeError"
proof (induction xs arbitrary: ao ai)
  case Nil
  then show ?case by simp
next
  case (Cons x xs)
  show ?case
  proof (cases "is_dict x")
    case False
    then have "py_get x ''order_id'' JNull = Inl AttributeError"
      by (cases x) (simp_all add: is_dict_def)
    with Cons.prems show ?thesis by simp
  next
    case True
    with Cons.prems show ?thesis
      by (auto simp: py_get_dict Let_def and_then_eq_Inl split: if_splits
          dest: py_iter_error items_loop_error Cons.IH)
  qed
qed

lemma process_orders_batch_error:
  "process_orders_batch orders ao ai = Inl e \<Longrightarrow> e = AttributeError \<or> e = TypeError"
  by (auto simp: process_orders_batch_def and_then_eq_Inl
      dest: py_iter_error py_filter_error orders_loop_error)

lemma py_getitem_error: "py_getitem v k = Inl e \<Longrightarrow> e = KeyError \<or> e = TypeError"
  by (cases v) (auto split: option.splits)

lemma last_order_id_nonempty_list:
  "xs \<noteq> [] \<Longrightarrow> last_order_id (JList xs) \<noteq> Inl IndexError"
  by (auto simp: last_order_id_def dest: py_getitem_error)

lemma last_order_id_after_len:
  "py_len orders = Inr n \<Longrightarrow> n \<noteq> 0 \<Longrightarrow> last_order_id orders \<noteq> Inl IndexError"
  by (cases orders) (auto simp: last_order_id_def dest: py_getitem_error)

lemma pages_loop_no_IndexError:
  "fst (pages_loop srv pages idxs c ao ai tr) \<noteq> Inl IndexError"
proof (induction idxs arbitrary: c ao ai tr)
  case Nil
  then show ?case by simp
next
  case (Cons i rest)
  show ?case
  proof (cases rule: pages_loop_Cons_cases [of srv c tr i pages rest ao ai])
    case (break r tr1 extra)
    then show ?thesis by simp
  next
    case (raise orders tr1 e)
    from raise(3) have "e \<noteq> IndexError"
      using last_order_id_after_len [of orders]
      by (auto dest: py_len_error process_orders_batch_error)
    with raise(2) show ?thesis by simp
  next
    case (continue orders tr1 n ao' ai' c')
    with Cons.IH [of c' ao' ai' "tr1 @ [Sleep (3 / 2)]"] show ?thesis
      by (simp del: pages_loop.simps)
  qed
qed

lemma make_tables_fst:
  "fst (make_tables x) = Inl e \<longleftrightarrow> fst x = Inl e"
  by (auto simp: make_tables_def split: prod.splits sum.splits)

subsection \<open>The sample run\<close>

lemma response_body_orders [simp]:
  "orders_of_response (response_body orders n) = Inr orders"
  by (simp add: orders_of_response_def response_body_def)

lemma sample_page_run:
  "process_orders_batch (JList sample_page) [] [] = Inr (sample_order_rows, sample_item_rows)"
  using process_orders_batch_raw [of "JList sample_page" sample_page "[]" "[]"] sample_page_raw
  by (simp add: raw_orders_are_dicts raw_orders_filter sample_page_extract)

lemma order_104_run:
  "process_orders_batch (JList [order_104]) ao ai = Inr (ao @ [row_104], ai @ [item_104])"
  by (simp add: process_orders_batch_def delivered_def order_104_def row_104_def item_104_def)

lemma sample_last_ids:
  "last_order_id (JList sample_page) = Inr (JInt 103)"
  "last_order_id (JList [order_104]) = Inr (JInt 104)"
  by (simp_all add: last_order_id_def sample_page_def order_103_def order_104_def)

lemma sample_run:
  "fetch_swiggy_orders sample_server [] =
     (Inr (Some (orders_df (sample_order_rows @ [row_104]),
                 items_df (sample_item_rows @ [item_104]))),
      sample_trace)"
proof -
  have np: "sample_page \<noteq> []" by (simp add: sample_page_def)
  have idxs: "[1..2] = [1, 2::int]" by (simp add: upto.simps)
  show ?thesis
    by (simp add: fetch_swiggy_orders_def session_get_def sample_server_def response_body_def
        sample_page_run np idxs sample_last_ids order_104_run fetch_orders_page_def
        orders_of_response_def make_tables_def sample_trace_def field_def ceil_div10_samples)
qed

section \<open>Claims about pagination\<close>

text \<open>
  C3. When the first response reports \<open>total_orders = T\<close> (below \<open>10\<^sup>1\<^sup>6\<close> in magnitude, where
  the double division of \<^verbatim>\<open>ceil(count/10)\<close> is exact enough), the number of pages computed
  is \<open>\<lceil>T / 10\<rceil>\<close>, and the run makes at most \<open>pages - 1\<close> further page fetches (none when
  \<open>pages \<le> 1\<close>), hence at most \<open>2 * (pages - 1)\<close> further requests, retries included. The
  loop is a recursion over the indices \<^verbatim>\<open>range(1, pages)\<close>, so the run always ends; for
  \<open>T = 23\<close> there are 3 pages and at most 2 further fetches.
\<close>

theorem pagination_bounded:
  assumes "srv (length (requests tr)) None = Response (Some j)"
    and "field (field j ''data'' JNull) ''total_orders'' (JInt 0) = JInt T"
    and "\<bar>T\<bar> < 10 ^ 16"
  shows "pages_of (JInt T) = Inr \<lceil>real_of_int T / 10\<rceil> \<and>
         page_fetches (snd (fetch_swiggy_orders srv tr))
           \<le> page_fetches tr + nat (\<lceil>real_of_int T / 10\<rceil> - 1) \<and>
         length (requests (snd (fetch_swiggy_orders srv tr)))
           \<le> length (requests tr) + 1 + 2 * nat (\<lceil>real_of_int T / 10\<rceil> - 1)"
proof -
  have "page_fetches (snd (fetch_swiggy_orders srv tr))
           \<le> page_fetches tr + nat (\<lceil>real_of_int T / 10\<rceil> - 1) \<and>
         length (requests (snd (fetch_swiggy_orders srv tr)))
           \<le> length (requests tr) + 1 + 2 * nat (\<lceil>real_of_int T / 10\<rceil> - 1)"
  proof (cases rule: fetch_swiggy_orders_cases [of srv tr])
    case (early extra)
    then show ?thesis by simp
  next
    case (loop j' data orders ao ai pages c)
    from loop(1) assms(1) have "j' = j" by simp
    with loop(2) have "data = field j ''data'' JNull"
      using py_get_dict [OF py_get_Inr_dict [OF loop(2)], of "''data''" JNull] by simp
    with loop(7) assms(2) have "pages_of (JInt T) = Inr pages" by simp
    with pages_of_ceiling [OF assms(3)] have pages: "pages = \<lceil>real_of_int T / 10\<rceil>"
      by simp
    let ?tr0 = "tr @ [Get None, Status_text (Found_orders (field data ''total_orders'' (JInt 0)))]"
    from pages_loop_fetch_bound [of srv pages "[1..pages - 1]" c ao ai ?tr0]
    show ?thesis unfolding loop(9) by (simp add: pages del: pages_loop.simps)
  qed
  with pages_of_ceiling [OF assms(3)] show ?thesis by simp
qed

theorem pagination_bounded_witness:
  "sample_server (length (requests [])) None = Response (response_body (JList sample_page) 23) \<and>
   \<bar>23 :: int\<bar> < 10 ^ 16 \<and>
   pages_of (JInt 23) = Inr 3 \<and>
   page_fetches (snd (fetch_swiggy_orders sample_server [])) \<le> 2 \<and>
   length (requests (snd (fetch_swiggy_orders sample_server []))) \<le> 5"
proof -
  have a: "sample_server (length (requests [])) None =
      Response (Some (JDict [(''data'', JDict [(''orders'', JList sample_page),
        (''total_orders'', JInt 23)])]))"
    by (simp add: sample_server_def response_body_def)
  have b: "field (field (JDict [(''data'', JDict [(''orders'', JList sample_page),
        (''total_orders'', JInt 23)])]) ''data'' JNull) ''total_orders'' (JInt 0) = JInt 23"
    by (simp add: field_def)
  have t: "\<bar>23 :: int\<bar> < 10 ^ 16" by simp
  have c: "\<lceil>real_of_int 23 / 10\<rceil> = 3" by (simp add: ceiling_eq_iff)
  from pagination_bounded [where srv = sample_server and tr = "[]" and T = 23, OF a b t] a t
  show ?thesis unfolding c by (simp add: response_body_def del: pages_of.simps)
qed

text \<open>
  C4. In every run the first request carries no cursor, and the cursor of every later
  request is the \<open>order_id\<close> of the last order returned by the request before it; when
  that request failed with a connection error, the retry repeats its cursor, so both
  requests of a retried page carry the last \<open>order_id\<close> of the page before.
\<close>

theorem cursor_correctness:
  "\<exists>cs. requests (snd (fetch_swiggy_orders srv tr)) = requests tr @ None # cs \<and>
        cursor_chain srv (length (requests tr)) (None # cs)"
proof (cases rule: fetch_swiggy_orders_cases [of srv tr])
  case (early extra)
  then show ?thesis by simp
next
  case (loop j data orders ao ai pages c)
  let ?n = "length (requests tr)"
  let ?tr0 = "tr @ [Get None, Status_text (Found_orders (field data ''total_orders'' (JInt 0)))]"
  from pages_loop_cursors [of srv pages "[1..pages - 1]" c ao ai ?tr0]
  obtain cs where cs: "requests (snd (fetch_swiggy_orders srv tr)) = requests tr @ None # cs"
    and chain: "cursor_chain srv (Suc ?n) cs" and hd_cs: "cs \<noteq> [] \<longrightarrow> hd cs = Some c"
    unfolding loop(9) by (auto simp del: pages_loop.simps)
  from loop(1,2,4,8) have "cursor_step srv ?n None (Some c)"
    by (simp add: cursor_step_def orders_of_response_def)
  with chain hd_cs have "cursor_chain srv ?n (None # cs)"
    by (auto simp: cursor_chain_Cons)
  with cs show ?thesis by blast
qed

theorem cursor_correctness_witness:
  "requests (snd (fetch_swiggy_orders sample_server [])) =
     [None, Some (JInt 103), Some (JInt 103), Some (JInt 104)] \<and>
   cursor_chain sample_server 0 [None, Some (JInt 103), Some (JInt 103), Some (JInt 104)]"
proof -
  have r: "requests (snd (fetch_swiggy_orders sample_server [])) =
     [None, Some (JInt 103), Some (JInt 103), Some (JInt 104)]"
    by (simp add: sample_run sample_trace_def)
  from cursor_correctness [of sample_server "[]"] show ?thesis unfolding r by simp
qed

text \<open>
  C5. When the first response holds an empty list of orders, the run returns two empty
  tables (not the pair of \<^verbatim>\<open>None\<close> of a failure, and no exception), shows an
  information message and no error, and sends no request besides the first.
\<close>

theorem zero_orders_terminal:
  assumes "srv (length (requests tr)) None = Response (Some j)"
    and "has_field j ''data''"
    and "has_field (field j ''data'' JNull) ''orders''"
    and "field (field j ''data'' JNull) ''orders'' JNull = JList []"
  shows "fetch_swiggy_orders srv tr =
           (Inr (Some (\<lparr>columns = [], rows = []\<rparr>, \<lparr>columns = [], rows = []\<rparr>)),
            tr @ [Get None, St_info No_order_placed])"
proof -
  from assms(2) obtain kvs data where j: "j = JDict kvs" and data: "map_of kvs ''data'' = Some data"
    by (cases j) (auto simp: has_field_def)
  from assms(3) j data obtain dkvs orders where d: "data = JDict dkvs"
    and orders: "map_of dkvs ''orders'' = Some orders"
    by (cases data) (auto simp: has_field_def field_def)
  from assms(4) j data d orders have "orders = JList []" by (simp add: field_def)
  moreover from orders have "dkvs \<noteq> []" by auto
  ultimately show ?thesis using assms(1) j data d orders
    by (simp add: fetch_swiggy_orders_def session_get_def DataFrame_def)
qed

theorem zero_orders_terminal_witness:
  "empty_history (length (requests [])) None = Response (response_body (JList []) 0) \<and>
   fetch_swiggy_orders empty_history [] =
     (Inr (Some (\<lparr>columns = [], rows = []\<rparr>, \<lparr>columns = [], rows = []\<rparr>)),
      [Get None, St_info No_order_placed])"
proof -
  let ?j = "JDict [(''data'', JDict [(''orders'', JList []), (''total_orders'', JInt 0)])]"
  have a: "empty_history (length (requests [])) None = Response (Some ?j)"
    by (simp add: empty_history_def response_body_def)
  have b: "has_field ?j ''data''" "has_field (field ?j ''data'' JNull) ''orders''"
    "field (field ?j ''data'' JNull) ''orders'' JNull = JList []"
    by (simp_all add: has_field_def field_def)
  from zero_orders_terminal [where srv = empty_history and tr = "[]" and j = ?j, OF a b] a
  show ?thesis by (simp add: response_body_def)
qed

text \<open>
  C6. When a page fetch raises (after its retry, if any), the loop ends at once and the
  two tables are built from exactly the rows collected from the pages processed before;
  and whatever the loop returns extends the rows it started with, so no iteration ever
  drops a row collected earlier.
\<close>

theorem partial_results_kept:
  "(fetch_orders_page srv c
       (tr @ [Progress i pages, Status_text (Fetching_page (i + 1) pages)]) = (Inl e, tr') \<longrightarrow>
      make_tables (pages_loop srv pages (i # rest) c all_orders all_items tr) =
        (Inr (Some (orders_df all_orders, items_df all_items)),
         tr' @ [St_error (Error_fetching_page (i + 1) e), Progress 1 1,
                Status_text All_orders_fetched])) \<and>
   (fst (pages_loop srv pages idxs c all_orders all_items tr) = Inr (all_orders', all_items') \<longrightarrow>
      (\<exists>os is. all_orders' = all_orders @ os \<and> all_items' = all_items @ is))"
proof (intro conjI impI)
  assume "fetch_orders_page srv c
       (tr @ [Progress i pages, Status_text (Fetching_page (i + 1) pages)]) = (Inl e, tr')"
  then show "make_tables (pages_loop srv pages (i # rest) c all_orders all_items tr) =
        (Inr (Some (orders_df all_orders, items_df all_items)),
         tr' @ [St_error (Error_fetching_page (i + 1) e), Progress 1 1,
                Status_text All_orders_fetched])"
    by (simp add: make_tables_def)
next
  assume "fst (pages_loop srv pages idxs c all_orders all_items tr) = Inr (all_orders', all_items')"
  then show "\<exists>os is. all_orders' = all_orders @ os \<and> all_items' = all_items @ is"
    by (rule pages_loop_keeps_rows)
qed

theorem partial_results_kept_witness:
  "fetch_orders_page sample_server (JInt 104)
     ([Get None, Get (Some (JInt 103)), Get (Some (JInt 103))] @
      [Progress 2 3, Status_text (Fetching_page (2 + 1) 3)]) =
     (Inl (Exception_wrap RequestException),
      [Get None, Get (Some (JInt 103)), Get (Some (JInt 103)),
       Progress 2 3, Status_text (Fetching_page 3 3), Get (Some (JInt 104))]) \<and>
   make_tables (pages_loop sample_server 3 [2] (JInt 104)
       (sample_order_rows @ [row_104]) (sample_item_rows @ [item_104])
       [Get None, Get (Some (JInt 103)), Get (Some (JInt 103))]) =
     (Inr (Some (orders_df (sample_order_rows @ [row_104]),
                 items_df (sample_item_rows @ [item_104]))),
      [Get None, Get (Some (JInt 103)), Get (Some (JInt 103)),
       Progress 2 3, Status_text (Fetching_page 3 3), Get (Some (JInt 104)),
       St_error (Error_fetching_page 3 (Exception_wrap RequestException)),
       Progress 1 1, Status_text All_orders_fetched]) \<and>
   fst (pages_loop sample_server 3 [1, 2] (JInt 103) sample_order_rows sample_item_rows
       [Get None]) = Inr (sample_order_rows @ [row_104], sample_item_rows @ [item_104]) \<and>
   (\<exists>os is. sample_order_rows @ [row_104] = sample_order_rows @ os \<and>
      sample_item_rows @ [item_104] = sample_item_rows @ is)"
proof -
  let ?tr = "[Get None, Get (Some (JInt 103)), Get (Some (JInt 103))]"
  let ?tr' = "[Get None, Get (Some (JInt 103)), Get (Some (JInt 103)),
       Progress 2 3, Status_text (Fetching_page 3 3), Get (Some (JInt 104))]"
  have a: "fetch_orders_page sample_server (JInt 104)
     (?tr @ [Progress 2 3, Status_text (Fetching_page (2 + 1) 3)]) =
     (Inl (Exception_wrap RequestException), ?tr')"
    by (simp add: fetch_orders_page_def session_get_def sample_server_def)
  have b: "fst (pages_loop sample_server 3 [1, 2] (JInt 103) sample_order_rows sample_item_rows
       [Get None]) = Inr (sample_order_rows @ [row_104], sample_item_rows @ [item_104])"
    by (simp add: fetch_orders_page_def session_get_def sample_server_def response_body_def
        orders_of_response_def order_104_run sample_last_ids)
  from partial_results_kept [where srv = sample_server and c = "JInt 104" and tr = ?tr
      and i = 2 and pages = 3 and e = "Exception_wrap RequestException" and tr' = ?tr'
      and rest = "[]" and all_orders = "sample_order_rows @ [row_104]"
      and all_items = "sample_item_rows @ [item_104]"] a
  have stop: "make_tables (pages_loop sample_server 3 [2] (JInt 104)
       (sample_order_rows @ [row_104]) (sample_item_rows @ [item_104]) ?tr) =
     (Inr (Some (orders_df (sample_order_rows @ [row_104]),
                 items_df (sample_item_rows @ [item_104]))),
      ?tr' @ [St_error (Error_fetching_page 3 (Exception_wrap RequestException)),
       Progress 1 1, Status_text All_orders_fetched])"
    by (simp del: pages_loop.simps)
  from partial_results_kept [where srv = sample_server and c = "JInt 103"
      and tr = "[Get None]" and pages = 3 and idxs = "[1, 2]"
      and all_orders = sample_order_rows and all_items = sample_item_rows
      and all_orders' = "sample_order_rows @ [row_104]"
      and all_items' = "sample_item_rows @ [item_104]"] b
  have kept: "\<exists>os is. sample_order_rows @ [row_104] = sample_order_rows @ os \<and>
      sample_item_rows @ [item_104] = sample_item_rows @ is"
    by (simp del: pages_loop.simps)
  from a stop b kept show ?thesis by (simp del: pages_loop.simps)
qed

text \<open>
  C10, as the code has it. When the orders of the first response are a list, the run
  never raises \<open>IndexError\<close>: the empty list is turned away by the zero-orders check, and
  a non-empty list has a last element. The loop never raises \<open>IndexError\<close> at all, since
  a page of length zero ends it before the cursor is updated.
\<close>

theorem cursor_index_safe:
  "(srv (length (requests tr)) None = Response (Some j) \<and>
    field (field j ''data'' JNull) ''orders'' (JList []) = JList xs \<longrightarrow>
      fst (fetch_swiggy_orders srv tr) \<noteq> Inl IndexError) \<and>
   fst (pages_loop srv pages idxs c all_orders all_items tr') \<noteq> Inl IndexError"
proof (intro conjI impI)
  assume a: "srv (length (requests tr)) None = Response (Some j) \<and>
    field (field j ''data'' JNull) ''orders'' (JList []) = JList xs"
  show "fst (fetch_swiggy_orders srv tr) \<noteq> Inl IndexError"
  proof (cases "py_get j ''data'' JNull")
    case (Inl e)
    with a show ?thesis
      by (auto simp: fetch_swiggy_orders_def session_get_def dest: py_get_error)
  next
    case (Inr data)
    then have data: "data = field j ''data'' JNull"
      using py_get_dict [OF py_get_Inr_dict [OF Inr], of "''data''" JNull] by simp
    show ?thesis
    proof (cases "py_get data ''orders'' (JList [])")
      case (Inl e)
      with a Inr show ?thesis
        by (auto simp: fetch_swiggy_orders_def session_get_def dest: py_get_error)
    next
      case orders: (Inr orders)
      then have d: "is_dict data" by (rule py_get_Inr_dict)
      with orders a data have o: "orders = JList xs" by (simp add: py_get_dict)
      show ?thesis
      proof (cases "xs = []")
        case True
        with a Inr orders o show ?thesis
          by (simp add: fetch_swiggy_orders_def session_get_def)
      next
        case False
        from last_order_id_nonempty_list [OF False] pages_loop_no_IndexError
        show ?thesis using a Inr orders o False d
          by (auto simp: fetch_swiggy_orders_def session_get_def py_get_dict make_tables_fst
              split: sum.splits dest: process_orders_batch_error pages_of_error)
      qed
    qed
  qed
next
  show "fst (pages_loop srv pages idxs c all_orders all_items tr') \<noteq> Inl IndexError"
    by (rule pages_loop_no_IndexError)
qed

theorem cursor_index_safe_witness:
  "sample_server (length (requests [])) None = Response (response_body (JList sample_page) 23) \<and>
   fst (fetch_swiggy_orders sample_server []) \<noteq> Inl IndexError \<and>
   fst (pages_loop sample_server 3 [1, 2] (JInt 103) sample_order_rows sample_item_rows
       [Get None]) \<noteq> Inl IndexError"
proof -
  let ?j = "JDict [(''data'', JDict [(''orders'', JList sample_page),
        (''total_orders'', JInt 23)])]"
  have a: "sample_server (length (requests [])) None = Response (Some ?j)"
    by (simp add: sample_server_def response_body_def)
  have b: "field (field ?j ''data'' JNull) ''orders'' (JList []) = JList sample_page"
    by (simp add: field_def)
  from cursor_index_safe [where srv = sample_server and tr = "[]" and j = ?j
      and xs = sample_page and pages = 3 and idxs = "[1, 2]" and c = "JInt 103"
      and tr' = "[Get None]" and all_orders = sample_order_rows and all_items = sample_item_rows] a b
  show ?thesis by (simp add: response_body_def del: pages_loop.simps)
qed

text \<open>
  The claim as stated says that the access \<^verbatim>\<open>orders[-1]['order_id']\<close> never fails. The
  zero-orders check only turns away an empty list: a first response whose orders are a
  blank string passes it and the access raises \<open>IndexError\<close>; and the lookup of
  \<open>order_id\<close> raises \<open>KeyError\<close> when the last order of the page has none.
\<close>

theorem cursor_index_fails:
  "fetch_swiggy_orders blank_orders [] =
     (Inl IndexError, [Get None, Status_text (Found_orders (JInt 0))]) \<and>
   fetch_swiggy_orders order_without_id [] =
     (Inl KeyError, [Get None, Status_text (Found_orders (JInt 1))])"
  by (simp add: fetch_swiggy_orders_def session_get_def blank_orders_def order_without_id_def
      response_body_def process_orders_batch_def delivered_def last_order_id_def field_def
      ceil_div10_samples)

end
